theory Spec2Isabelle
  imports Complex_Main "HOL-Library.Sublist" "HOL-Library.Multiset" "HOL-Library.Log_Nat"
begin

text \<open>
  The dashboard compares the sizes of the bundles of two builds and shows the timings of
  profiled tests. This theory embeds the computations of its routes: the comparison of
  two size snapshots and the order of the rows of its tables, the median of the timings
  of a render and the aggregation of the reports by browser, and the answer of a loader
  to a failed download. The definitions come first, the properties after them.
\<close>

section \<open>Numbers\<close>

text \<open>
  A number of JavaScript is a double: a finite value, an infinity or \<open>NaN\<close>. A finite
  double is a rational, and the result of an operation on finite doubles is the exact
  result rounded to the nearest double, to the one with the even significand when two
  are equally near. \<open>double\<close> is this rounding, to the 53 binary digits of the format:
  a value \<open>x\<close> with \<open>2^e \<le> |x| < 2^(e+1)\<close> is rounded to a multiple of
  \<open>2^(e-52)\<close>. The range of the exponent is not bounded here; the sizes of the
  bundles, their quotients and their differences are far inside the range of the
  format. The sign of a zero is not kept either: no size is \<open>-0\<close>.
\<close>

definition round_half_even :: "rat \<Rightarrow> int" where
  "round_half_even x =
     (let n = \<lfloor>x\<rfloor>; r = x - of_int n
      in if r < 1 / 2 then n else if 1 / 2 < r then n + 1 else if even n then n else n + 1)"

text \<open>The exponent \<open>e\<close> with \<open>2^e \<le> x < 2^(e+1)\<close>, for a positive \<open>x\<close>.\<close>

definition binary_exponent :: "rat \<Rightarrow> int" where
  "binary_exponent x =
     (if 1 \<le> x then bitlen \<lfloor>x\<rfloor> - 1 else - bitlen (\<lceil>1 / x\<rceil> - 1))"

definition double :: "rat \<Rightarrow> rat" where
  "double x =
     (if x = 0 then 0
      else let e = binary_exponent \<bar>x\<bar>;
               m = round_half_even (\<bar>x\<bar> * 2 powi (52 - e))
           in sgn x * of_int m * 2 powi (e - 52))"

datatype number = Finite rat | PosInfinity | NegInfinity | NaN

text \<open>The operators \<open>x - y\<close> and \<open>x / y\<close> on numbers. Neither throws.\<close>

fun js_minus :: "number \<Rightarrow> number \<Rightarrow> number" where
  "js_minus (Finite a) (Finite b) = Finite (double (a - b))"
| "js_minus (Finite a) PosInfinity = NegInfinity"
| "js_minus (Finite a) NegInfinity = PosInfinity"
| "js_minus PosInfinity (Finite b) = PosInfinity"
| "js_minus PosInfinity PosInfinity = NaN"
| "js_minus PosInfinity NegInfinity = PosInfinity"
| "js_minus NegInfinity (Finite b) = NegInfinity"
| "js_minus NegInfinity PosInfinity = NegInfinity"
| "js_minus NegInfinity NegInfinity = NaN"
| "js_minus NaN y = NaN"
| "js_minus x NaN = NaN"

fun js_divide :: "number \<Rightarrow> number \<Rightarrow> number" where
  "js_divide (Finite a) (Finite b) =
     (if b = 0 then (if 0 < a then PosInfinity else if a < 0 then NegInfinity else NaN)
      else Finite (double (a / b)))"
| "js_divide (Finite a) PosInfinity = Finite 0"
| "js_divide (Finite a) NegInfinity = Finite 0"
| "js_divide PosInfinity (Finite b) = (if b < 0 then NegInfinity else PosInfinity)"
| "js_divide NegInfinity (Finite b) = (if b < 0 then PosInfinity else NegInfinity)"
| "js_divide PosInfinity PosInfinity = NaN"
| "js_divide PosInfinity NegInfinity = NaN"
| "js_divide NegInfinity PosInfinity = NaN"
| "js_divide NegInfinity NegInfinity = NaN"
| "js_divide NaN y = NaN"
| "js_divide x NaN = NaN"

text \<open>
  The value of a field that is read from an object and used as a number: the number, or
  \<open>undefined\<close> where the object has no such field. In arithmetic \<open>undefined\<close> counts
  as \<open>NaN\<close>.
\<close>

datatype js_value = Undefined | Number number

fun ToNumber :: "js_value \<Rightarrow> number" where
  "ToNumber Undefined = NaN"
| "ToNumber (Number n) = n"

text \<open>
  The sizes of a snapshot are byte counts, modelled as integers. \<open>c / p\<close> for two
  sizes and \<open>x - 1\<close> for a number \<open>x\<close>:
\<close>

definition divide_sizes :: "int \<Rightarrow> int \<Rightarrow> number" where
  "divide_sizes c p = js_divide (Finite (rat_of_int c)) (Finite (rat_of_int p))"

definition minus_one :: "number \<Rightarrow> number" where
  "minus_one x = js_minus x (Finite 1)"

section \<open>Objects with string keys\<close>

text \<open>
  A plain object is the list of its own properties in the order of their creation, every
  key once. \<open>set_property\<close> is the write that keeps the place of a key that is already
  there and appends a new one.
\<close>

type_synonym 'v object = "(string \<times> 'v) list"

fun set_property :: "'v object \<Rightarrow> string \<Rightarrow> 'v \<Rightarrow> 'v object" where
  "set_property [] k v = [(k, v)]"
| "set_property ((k', v') # ps) k v =
     (if k' = k then (k, v) # ps else (k', v') # set_property ps k v)"

text \<open>
  The read \<open>obj[k]\<close> looks for an own property first and then follows the prototype
  chain. The prototype of a plain object is \<open>Object.prototype\<close>, whose members are the
  twelve below as long as no program has added to them; eleven are functions and
  \<open>__proto__\<close> reads as \<open>Object.prototype\<close> itself, so every inherited member is
  truthy and is an object. A read gives the own value, an inherited member, or
  \<open>undefined\<close>.
\<close>

definition Object_prototype :: "string list" where
  "Object_prototype =
     [''constructor'', ''__defineGetter__'', ''__defineSetter__'', ''hasOwnProperty'',
      ''__lookupGetter__'', ''__lookupSetter__'', ''isPrototypeOf'', ''propertyIsEnumerable'',
      ''toString'', ''valueOf'', ''__proto__'', ''toLocaleString'']"

datatype 'v looked_up = Missing | Own 'v | Inherited

definition read :: "'v object \<Rightarrow> string \<Rightarrow> 'v looked_up" where
  "read obj k =
     (case map_of obj k of
        Some v \<Rightarrow> Own v
      | None \<Rightarrow> if k \<in> set Object_prototype then Inherited else Missing)"

text \<open>
  The \<open>length\<close> of the inherited member of a name, the number of parameters of the
  function; \<open>Object.prototype\<close> itself has none.
\<close>

definition member_length :: "string \<Rightarrow> nat option" where
  "member_length k =
     (if k \<in> set [''__defineGetter__'', ''__defineSetter__''] then Some 2
      else if k \<in> set [''constructor'', ''hasOwnProperty'', ''__lookupGetter__'',
                        ''__lookupSetter__'', ''isPrototypeOf'', ''propertyIsEnumerable'']
      then Some 1
      else if k \<in> set [''toString'', ''valueOf'', ''toLocaleString''] then Some 0
      else None)"

text \<open>
  \<open>get\<close> is the read of an own property, with \<open>None\<close> where the object has none of
  the name. It is the read \<open>obj[k]\<close> for every key that is not the name of an
  inherited member.
\<close>

definition get :: "'v object \<Rightarrow> string \<Rightarrow> 'v option" where
  "get obj k = map_of obj k"

text \<open>
  The keys of an object are enumerated with the array indices first, in ascending
  numeric order, and the other keys after them in the order of their creation. An array
  index is the canonical decimal numeral of an integer from \<open>0\<close> to \<open>2^32 - 2\<close>
  (\<open>4294967294\<close>).
\<close>

definition is_digit :: "char \<Rightarrow> bool" where
  "is_digit c = (c \<in> set ''0123456789'')"

definition decimal_value :: "string \<Rightarrow> int" where
  "decimal_value k = foldl (\<lambda>n c. 10 * n + (of_char c - 48)) 0 k"

definition is_array_index :: "string \<Rightarrow> bool" where
  "is_array_index k =
     (k \<noteq> [] \<and> list_all is_digit k \<and> (k = ''0'' \<or> hd k \<noteq> CHR ''0'')
      \<and> decimal_value k < 4294967295)"

definition own_properties :: "'v object \<Rightarrow> 'v object" where
  "own_properties obj =
     sort_key (\<lambda>p. decimal_value (fst p)) (filter (\<lambda>p. is_array_index (fst p)) obj)
     @ filter (\<lambda>p. \<not> is_array_index (fst p)) obj"

definition Object_keys :: "'v object \<Rightarrow> string list" where
  "Object_keys obj = map fst (own_properties obj)"

text \<open>
  The object literal \<open>{ ...a, ...b }\<close> copies the own properties of \<open>a\<close> and then
  those of \<open>b\<close>, each in its enumeration order, into a fresh object.
\<close>

definition copy_data_properties :: "'v object \<Rightarrow> 'v object \<Rightarrow> 'v object" where
  "copy_data_properties target source =
     foldl (\<lambda>t p. set_property t (fst p) (snd p)) target (own_properties source)"

definition spread :: "'v object \<Rightarrow> 'v object \<Rightarrow> 'v object" where
  "spread a b = copy_data_properties (copy_data_properties [] a) b"

definition startsWith :: "string \<Rightarrow> string \<Rightarrow> bool" where
  "startsWith s p = prefix p s"

section \<open>Size snapshots and their comparison\<close>

text \<open>
  An entry of a snapshot is \<open>{ parsed: number; gzip: number }\<close>; its two fields are
  named \<open>parsed_bytes\<close> and \<open>gzip_bytes\<close> here, since \<open>parsed\<close> and \<open>gzip\<close>
  are the fields of \<open>Size\<close> as well.
\<close>

record measurement =
  parsed_bytes :: int
  gzip_bytes :: int

type_synonym SizeSnapshot = "measurement object"

definition nullSnapshot :: measurement where
  "nullSnapshot = \<lparr>parsed_bytes = 0, gzip_bytes = 0\<rparr>"

definition bundleKeys :: "SizeSnapshot \<Rightarrow> SizeSnapshot \<Rightarrow> string list" where
  "bundleKeys baseSnapshot targetSnapshot = Object_keys (spread baseSnapshot targetSnapshot)"

subsection \<open>The comparison on the values of the language\<close>

text \<open>
  \<open>snapshot[bundle] || nullSnapshot\<close>: an entry of the snapshot is an object, hence
  truthy, and so is an inherited member; the default is taken exactly when the read
  gives \<open>undefined\<close>. The result is an entry, or an inherited member, which has
  neither a field \<open>parsed\<close> nor a field \<open>gzip\<close>.
\<close>

datatype sizes = Entry measurement | Member

definition or_nullSnapshot_js :: "measurement looked_up \<Rightarrow> sizes" where
  "or_nullSnapshot_js r =
     (case r of Missing \<Rightarrow> Entry nullSnapshot | Own m \<Rightarrow> Entry m | Inherited \<Rightarrow> Member)"

fun parsed_of :: "sizes \<Rightarrow> js_value" where
  "parsed_of (Entry m) = Number (Finite (rat_of_int (parsed_bytes m)))"
| "parsed_of Member = Undefined"

fun gzip_of :: "sizes \<Rightarrow> js_value" where
  "gzip_of (Entry m) = Number (Finite (rat_of_int (gzip_bytes m)))"
| "gzip_of Member = Undefined"

text \<open>
  The sizes of a bundle as the loop builds them. The fields carry the suffix \<open>_js\<close>:
  \<open>previous\<close> and \<open>current\<close> can be \<open>undefined\<close>, and the two differences are
  numbers that can be \<open>NaN\<close>.
\<close>

record SizeDiff_js =
  previous_js :: js_value
  current_js :: js_value
  absoluteDiff_js :: number
  relativeDiff_js :: number

record Size_js =
  parsed_js :: SizeDiff_js
  gzip_js :: SizeDiff_js

text \<open>The constant \<open>entry\<close> of the loop body, the same text in the three routes.\<close>

definition entry_js :: "SizeSnapshot \<Rightarrow> SizeSnapshot \<Rightarrow> string \<Rightarrow> string \<times> Size_js" where
  "entry_js baseSnapshot targetSnapshot bundle =
     (let currentSize = or_nullSnapshot_js (read targetSnapshot bundle);
          previousSize = or_nullSnapshot_js (read baseSnapshot bundle)
      in (bundle,
          \<lparr>parsed_js =
             \<lparr>previous_js = parsed_of previousSize,
              current_js = parsed_of currentSize,
              absoluteDiff_js =
                js_minus (ToNumber (parsed_of currentSize)) (ToNumber (parsed_of previousSize)),
              relativeDiff_js =
                js_minus
                  (js_divide (ToNumber (parsed_of currentSize))
                     (ToNumber (parsed_of previousSize)))
                  (Finite 1)\<rparr>,
           gzip_js =
             \<lparr>previous_js = gzip_of previousSize,
              current_js = gzip_of currentSize,
              absoluteDiff_js =
                js_minus (ToNumber (gzip_of currentSize)) (ToNumber (gzip_of previousSize)),
              relativeDiff_js =
                js_minus
                  (js_divide (ToNumber (gzip_of currentSize)) (ToNumber (gzip_of previousSize)))
                  (Finite 1)\<rparr>\<rparr>))"

text \<open>
  The route that shows one table: \<open>bundleKeys.forEach\<close> pushes every entry to
  \<open>main\<close>.
\<close>

definition compute_main_js :: "SizeSnapshot \<Rightarrow> SizeSnapshot \<Rightarrow> (string \<times> Size_js) list" where
  "compute_main_js baseSnapshot targetSnapshot =
     foldl (\<lambda>main bundle. main @ [entry_js baseSnapshot targetSnapshot bundle]) []
       (bundleKeys baseSnapshot targetSnapshot)"

text \<open>
  The routes that show two tables: the loop pushes an entry to \<open>pages\<close> when the
  bundle starts with \<open>docs:\<close> and to \<open>main\<close> otherwise.
\<close>

record AppData_js =
  main_js :: "(string \<times> Size_js) list"
  pages_js :: "(string \<times> Size_js) list"

definition push_entry_js ::
  "SizeSnapshot \<Rightarrow> SizeSnapshot \<Rightarrow> AppData_js \<Rightarrow> string \<Rightarrow> AppData_js" where
  "push_entry_js baseSnapshot targetSnapshot d bundle =
     (if startsWith bundle ''docs:''
      then d\<lparr>pages_js := pages_js d @ [entry_js baseSnapshot targetSnapshot bundle]\<rparr>
      else d\<lparr>main_js := main_js d @ [entry_js baseSnapshot targetSnapshot bundle]\<rparr>)"

definition compute_main_pages_js :: "SizeSnapshot \<Rightarrow> SizeSnapshot \<Rightarrow> AppData_js" where
  "compute_main_pages_js baseSnapshot targetSnapshot =
     foldl (push_entry_js baseSnapshot targetSnapshot) \<lparr>main_js = [], pages_js = []\<rparr>
       (bundleKeys baseSnapshot targetSnapshot)"

definition entries_of_js :: "AppData_js \<Rightarrow> (string \<times> Size_js) list" where
  "entries_of_js d = main_js d @ pages_js d"

subsection \<open>The comparison in byte counts\<close>

text \<open>
  Where no identifier of the two snapshots names an inherited member that one of them
  lacks, every read gives an entry or \<open>undefined\<close> and every field of the result is a
  number. The comparison is then one of integers: the sizes and their differences are
  integers, and only the relative change is a double. The definitions below are the
  loop on these values, with \<open>get\<close> for the read; \<open>Size_js_of\<close> gives the values of
  the language that stand for them, and the two comparisons are shown to agree. The
  order of the rows of a table is studied on this form.
\<close>

record SizeDiff =
  previous :: int
  current :: int
  absoluteDiff :: int
  relativeDiff :: number

record Size =
  parsed :: SizeDiff
  gzip :: SizeDiff

definition or_nullSnapshot :: "measurement option \<Rightarrow> measurement" where
  "or_nullSnapshot r = (case r of None \<Rightarrow> nullSnapshot | Some m \<Rightarrow> m)"

definition entry :: "SizeSnapshot \<Rightarrow> SizeSnapshot \<Rightarrow> string \<Rightarrow> string \<times> Size" where
  "entry baseSnapshot targetSnapshot bundle =
     (let currentSize = or_nullSnapshot (get targetSnapshot bundle);
          previousSize = or_nullSnapshot (get baseSnapshot bundle)
      in (bundle,
          \<lparr>parsed =
             \<lparr>previous = parsed_bytes previousSize,
              current = parsed_bytes currentSize,
              absoluteDiff = parsed_bytes currentSize - parsed_bytes previousSize,
              relativeDiff = minus_one (divide_sizes (parsed_bytes currentSize) (parsed_bytes previousSize))\<rparr>,
           gzip =
             \<lparr>previous = gzip_bytes previousSize,
              current = gzip_bytes currentSize,
              absoluteDiff = gzip_bytes currentSize - gzip_bytes previousSize,
              relativeDiff = minus_one (divide_sizes (gzip_bytes currentSize) (gzip_bytes previousSize))\<rparr>\<rparr>))"

definition compute_main :: "SizeSnapshot \<Rightarrow> SizeSnapshot \<Rightarrow> (string \<times> Size) list" where
  "compute_main baseSnapshot targetSnapshot =
     foldl (\<lambda>main bundle. main @ [entry baseSnapshot targetSnapshot bundle]) []
       (bundleKeys baseSnapshot targetSnapshot)"

record AppData =
  main :: "(string \<times> Size) list"
  pages :: "(string \<times> Size) list"

definition push_entry :: "SizeSnapshot \<Rightarrow> SizeSnapshot \<Rightarrow> AppData \<Rightarrow> string \<Rightarrow> AppData" where
  "push_entry baseSnapshot targetSnapshot d bundle =
     (if startsWith bundle ''docs:''
      then d\<lparr>pages := pages d @ [entry baseSnapshot targetSnapshot bundle]\<rparr>
      else d\<lparr>main := main d @ [entry baseSnapshot targetSnapshot bundle]\<rparr>)"

definition compute_main_pages :: "SizeSnapshot \<Rightarrow> SizeSnapshot \<Rightarrow> AppData" where
  "compute_main_pages baseSnapshot targetSnapshot =
     foldl (push_entry baseSnapshot targetSnapshot) \<lparr>main = [], pages = []\<rparr>
       (bundleKeys baseSnapshot targetSnapshot)"

text \<open>The values of the language that stand for sizes in byte counts.\<close>

definition SizeDiff_js_of :: "SizeDiff \<Rightarrow> SizeDiff_js" where
  "SizeDiff_js_of d =
     \<lparr>previous_js = Number (Finite (rat_of_int (previous d))),
      current_js = Number (Finite (rat_of_int (current d))),
      absoluteDiff_js = Finite (double (rat_of_int (absoluteDiff d))),
      relativeDiff_js = relativeDiff d\<rparr>"

definition Size_js_of :: "Size \<Rightarrow> Size_js" where
  "Size_js_of s = \<lparr>parsed_js = SizeDiff_js_of (parsed s), gzip_js = SizeDiff_js_of (gzip s)\<rparr>"

text \<open>
  The identifiers of an object, and the entries of a comparison whatever the table they
  are shown in.
\<close>

definition key_set :: "'v object \<Rightarrow> string set" where
  "key_set obj = fst ` set obj"

definition entries_of :: "AppData \<Rightarrow> (string \<times> Size) list" where
  "entries_of d = main d @ pages d"

section \<open>Bundle labels\<close>










section \<open>Sorting and the rows of a table\<close>

text \<open>
  \<open>Array.prototype.sort\<close> with a consistent comparison function sorts by it and is
  stable: elements that compare equal keep their order. The algorithm is the engine's;
  the model is the stable insertion sort, where an element goes before the first one
  that it does not compare greater than.
\<close>

fun insert_sorted :: "('a \<Rightarrow> 'a \<Rightarrow> 'n::{linorder,zero}) \<Rightarrow> 'a \<Rightarrow> 'a list \<Rightarrow> 'a list" where
  "insert_sorted cmp x [] = [x]"
| "insert_sorted cmp x (y # ys) =
     (if cmp x y \<le> 0 then x # y # ys else y # insert_sorted cmp x ys)"

definition array_sort :: "('a \<Rightarrow> 'a \<Rightarrow> 'n::{linorder,zero}) \<Rightarrow> 'a list \<Rightarrow> 'a list" where
  "array_sort cmp xs = foldr (insert_sorted cmp) xs []"












section \<open>The median of profiler timings\<close>

text \<open>
  A duration is a finite number of milliseconds, modelled as a rational. The index
  \<open>timings.length >> 1\<close> is computed on 32-bit integers: the shift converts its left
  operand with \<open>ToInt32\<close>. Reading an array outside its range gives \<open>undefined\<close>,
  \<open>None\<close> here.
\<close>

definition ToInt32 :: "int \<Rightarrow> int" where
  "ToInt32 n = (let m = n mod 4294967296 in if 2147483648 \<le> m then m - 4294967296 else m)"

definition shift_right :: "int \<Rightarrow> nat \<Rightarrow> int" where
  "shift_right n k = ToInt32 n div 2 ^ (k mod 32)"

definition array_at :: "'a list \<Rightarrow> int \<Rightarrow> 'a option" where
  "array_at xs i = (if 0 \<le> i \<and> i < int (length xs) then Some (xs ! nat i) else None)"

text \<open>The constant \<open>mean\<close> of \<open>TimingAnalysisMean\<close>.\<close>

definition mean :: "rat list \<Rightarrow> rat option" where
  "mean timings =
     array_at (array_sort (\<lambda>a b. a - b) timings) (shift_right (int (length timings)) 1)"

text \<open>
  The text that \<open>TimingAnalysisMean\<close> shows, \<open>format(mean)\<close>; the formatter is a
  property and has no value for \<open>undefined\<close>.
\<close>

definition TimingAnalysisMean :: "(rat \<Rightarrow> string) \<Rightarrow> rat list \<Rightarrow> string option" where
  "TimingAnalysisMean format timings = map_option format (mean timings)"

section \<open>The aggregation of profiler reports\<close>

text \<open>
  A test profile of a browser holds, for every test, the reports of its renders. The
  page squashes the reports of one test by browser: the render at an index collects the
  durations that the runs of the browser report at that index. The fields of the
  squashed record hold lists and are named in the plural here.
\<close>

record ProfilerReport =
  phase :: string
  actualDuration :: rat
  baseDuration :: rat
  startTime :: rat
  commitTime :: rat
  interactions :: "(int \<times> string) list"

record TestProfile =
  browserName :: string
  profile :: "ProfilerReport list object"
  timestamp :: rat

record render =
  render_phase :: string
  actualDurations :: "rat list"
  baseDurations :: "rat list"
  startTimes :: "rat list"
  commitTimes :: "rat list"
  render_interactions :: "(int \<times> string) list"

text \<open>
  An array that is written by index can have holes: an element is \<open>None\<close> where the
  array has none, a read there or past the end gives \<open>undefined\<close>, and a write past
  the end extends the array.
\<close>

definition read_index :: "'a option list \<Rightarrow> nat \<Rightarrow> 'a option" where
  "read_index xs i = (if i < length xs then xs ! i else None)"

definition write_index :: "'a option list \<Rightarrow> nat \<Rightarrow> 'a \<Rightarrow> 'a option list" where
  "write_index xs i v =
     (if i < length xs then xs[i := Some v]
      else xs @ replicate (i - length xs) None @ [Some v])"

definition squash :: "ProfilerReport \<Rightarrow> render" where
  "squash testProfile =
     \<lparr>render_phase = phase testProfile,
      actualDurations = [actualDuration testProfile],
      baseDurations = [baseDuration testProfile],
      startTimes = [startTime testProfile],
      commitTimes = [commitTime testProfile],
      render_interactions = interactions testProfile\<rparr>"

definition push_report :: "render \<Rightarrow> ProfilerReport \<Rightarrow> render" where
  "push_report interaction testProfile =
     interaction
       \<lparr>actualDurations := actualDurations interaction @ [actualDuration testProfile],
        baseDurations := baseDurations interaction @ [baseDuration testProfile],
        startTimes := startTimes interaction @ [startTime testProfile],
        commitTimes := commitTimes interaction @ [commitTime testProfile]\<rparr>"

text \<open>The body of the inner loop, for a report and its index.\<close>

definition add_report :: "render option list \<Rightarrow> ProfilerReport \<times> nat \<Rightarrow> render option list" where
  "add_report renders p =
     (case p of (testProfile, interactionIndex) \<Rightarrow>
        (case read_index renders interactionIndex of
           None \<Rightarrow> write_index renders interactionIndex (squash testProfile)
         | Some interaction \<Rightarrow>
             renders[interactionIndex := Some (push_report interaction testProfile)]))"

text \<open>
  A piece of the program gives a value or throws a \<open>TypeError\<close>. The third outcome
  marks the one place where the model stops following the program: a write to a member
  that every object inherits, after which the program goes on in a state that the model
  does not describe.
\<close>

datatype 'a outcome = Value 'a | TypeError | Unfollowed

text \<open>
  The body of the outer loop, for the test profile of one run. \<open>profile[testId]\<close> can
  be an inherited member: a function of one or two parameters has a positive
  \<open>length\<close> and no \<open>map\<close> or \<open>forEach\<close>, so the call throws; the other members
  fail the test on the length. \<open>profilesByBrowserName[browserName]\<close> can be an
  inherited member too; it is not \<open>undefined\<close>, and the inner loop then writes the
  reports into that member.
\<close>

definition add_profile ::
  "string \<Rightarrow> render option list object \<Rightarrow> TestProfile \<Rightarrow> render option list object outcome"
  where
  "add_profile testId profiles tp =
     (case read (profile tp) testId of
        Missing \<Rightarrow> Value profiles
      | Inherited \<Rightarrow>
          (case member_length testId of
             None \<Rightarrow> Value profiles
           | Some n \<Rightarrow> if 0 < n then TypeError else Value profiles)
      | Own testProfiles \<Rightarrow>
          if 0 < length testProfiles
          then (case read profiles (browserName tp) of
                  Missing \<Rightarrow>
                    Value (set_property profiles (browserName tp)
                      (map (\<lambda>testProfile. Some (squash testProfile)) testProfiles))
                | Own renders \<Rightarrow>
                    Value (set_property profiles (browserName tp)
                      (foldl add_report renders
                         (zip testProfiles [0..<length testProfiles])))
                | Inherited \<Rightarrow> Unfollowed)
          else Value profiles)"

text \<open>\<open>testProfiles.forEach\<close>: a round that does not give a value ends the loop.\<close>

definition profilesByBrowserName ::
  "string \<Rightarrow> TestProfile list \<Rightarrow> render option list object outcome" where
  "profilesByBrowserName testId testProfiles =
     foldl
       (\<lambda>acc tp. case acc of
          Value profiles \<Rightarrow> add_profile testId profiles tp
        | TypeError \<Rightarrow> TypeError
        | Unfollowed \<Rightarrow> Unfollowed)
       (Value []) testProfiles"

text \<open>
  The inner loop in closed form: the reports of a run are squashed into the renders
  index by index, and where the renders end, or have a hole, a report starts a render.
\<close>

fun squash_into :: "render option list \<Rightarrow> ProfilerReport list \<Rightarrow> render option list" where
  "squash_into rs [] = rs"
| "squash_into [] (t # ts) = Some (squash t) # squash_into [] ts"
| "squash_into (x # rs) (t # ts) =
     (case x of None \<Rightarrow> Some (squash t) | Some r \<Rightarrow> Some (push_report r t))
     # squash_into rs ts"

text \<open>
  A render holds the measurements of at most \<open>n\<close> runs: it is no hole, and its
  lists of durations are not empty and have at most \<open>n\<close> elements.
\<close>

definition measured :: "nat \<Rightarrow> render option \<Rightarrow> bool" where
  "measured n x =
     (case x of None \<Rightarrow> False
      | Some r \<Rightarrow> actualDurations r \<noteq> [] \<and> length (actualDurations r) \<le> n
          \<and> baseDurations r \<noteq> [] \<and> length (baseDurations r) \<le> n)"

text \<open>
  The repeated measurements of a test and a browser: the runs of the browser that report
  the test, in their order, and of these the values that the runs report at an index. A
  run reports a test when its profile has a property of that name of its own.
\<close>

definition reports_of :: "string \<Rightarrow> TestProfile \<Rightarrow> ProfilerReport list" where
  "reports_of testId tp =
     (case read (profile tp) testId of Own ts \<Rightarrow> ts | Missing \<Rightarrow> [] | Inherited \<Rightarrow> [])"

definition runs_of :: "string \<Rightarrow> string \<Rightarrow> TestProfile list \<Rightarrow> ProfilerReport list list" where
  "runs_of testId browser testProfiles =
     map (reports_of testId)
       (filter (\<lambda>tp. browserName tp = browser \<and> reports_of testId tp \<noteq> []) testProfiles)"

definition measurements_at ::
  "(ProfilerReport \<Rightarrow> rat) \<Rightarrow> nat \<Rightarrow> ProfilerReport list list \<Rightarrow> rat list" where
  "measurements_at duration i runs =
     map (\<lambda>ts. duration (ts ! i)) (filter (\<lambda>ts. i < length ts) runs)"

text \<open>
  The renders that the aggregation holds for a browser, none when it has no key for it,
  and what a render at an index has collected from the runs.
\<close>

definition renders_of :: "render option list object \<Rightarrow> string \<Rightarrow> render option list" where
  "renders_of profiles b = (case get profiles b of None \<Rightarrow> [] | Some rs \<Rightarrow> rs)"

definition collected :: "ProfilerReport list list \<Rightarrow> nat \<Rightarrow> render option \<Rightarrow> bool" where
  "collected runs i x =
     (case x of None \<Rightarrow> False
      | Some r \<Rightarrow> actualDurations r = measurements_at actualDuration i runs
          \<and> baseDurations r = measurements_at baseDuration i runs)"

text \<open>One round of the outer loop in closed form, for a run that gives a value.\<close>

definition squashed ::
  "string \<Rightarrow> render option list object \<Rightarrow> TestProfile \<Rightarrow> render option list object" where
  "squashed testId profiles tp =
     (if reports_of testId tp = [] then profiles
      else set_property profiles (browserName tp)
             (squash_into (renders_of profiles (browserName tp)) (reports_of testId tp)))"

section \<open>The loaders\<close>













text \<open>
  The loader of the route that reads the target from Azure. It hands the two snapshots
  to the page, and its \<open>catch\<close> binds no error and returns its response.
\<close>

datatype azure_data = BuildId number | Snapshots SizeSnapshot SizeSnapshot number


text \<open>
  The page of that route is rendered with the data of the response that the loader
  returned, whatever its status. It takes \<open>baseSnapshot\<close> and \<open>targetSnapshot\<close>
  from the data, \<open>undefined\<close> where the data has no such field, and \<open>Comparison\<close>
  computes the entries of its two tables from them. Spreading \<open>undefined\<close> copies
  nothing; a read from an \<open>undefined\<close> snapshot throws, the read from the target
  first.
\<close>

definition baseSnapshot_of :: "azure_data \<Rightarrow> SizeSnapshot option" where
  "baseSnapshot_of d =
     (case d of BuildId buildId \<Rightarrow> None | Snapshots baseSnapshot targetSnapshot prNumber \<Rightarrow> Some baseSnapshot)"

definition targetSnapshot_of :: "azure_data \<Rightarrow> SizeSnapshot option" where
  "targetSnapshot_of d =
     (case d of BuildId buildId \<Rightarrow> None | Snapshots baseSnapshot targetSnapshot prNumber \<Rightarrow> Some targetSnapshot)"

definition spread_source :: "'v object option \<Rightarrow> 'v object" where
  "spread_source obj = (case obj of None \<Rightarrow> [] | Some properties \<Rightarrow> properties)"

definition Comparison_results ::
  "SizeSnapshot option \<Rightarrow> SizeSnapshot option \<Rightarrow> AppData_js outcome" where
  "Comparison_results baseSnapshot targetSnapshot =
     foldl
       (\<lambda>acc bundle. case acc of
          Value d \<Rightarrow>
            (case targetSnapshot of
               None \<Rightarrow> TypeError
             | Some target \<Rightarrow>
                 (case baseSnapshot of
                    None \<Rightarrow> TypeError
                  | Some base \<Rightarrow> Value (push_entry_js base target d bundle)))
        | TypeError \<Rightarrow> TypeError
        | Unfollowed \<Rightarrow> Unfollowed)
       (Value \<lparr>main_js = [], pages_js = []\<rparr>)
       (Object_keys (spread (spread_source baseSnapshot) (spread_source targetSnapshot)))"

definition SizeComparison_azure :: "azure_data \<Rightarrow> AppData_js outcome" where
  "SizeComparison_azure d = Comparison_results (baseSnapshot_of d) (targetSnapshot_of d)"

section \<open>Example inputs\<close>

text \<open>
  A base and a target snapshot: \<open>a\<close> grows, \<open>b\<close> and a page are added, \<open>c\<close> is
  removed, \<open>d\<close> is unchanged.
\<close>

definition base_example :: SizeSnapshot where
  "base_example =
     [(''a'', \<lparr>parsed_bytes = 1000, gzip_bytes = 400\<rparr>),
      (''c'', \<lparr>parsed_bytes = 100, gzip_bytes = 50\<rparr>),
      (''d'', \<lparr>parsed_bytes = 10, gzip_bytes = 5\<rparr>)]"

definition target_example :: SizeSnapshot where
  "target_example =
     [(''a'', \<lparr>parsed_bytes = 1100, gzip_bytes = 440\<rparr>),
      (''b'', \<lparr>parsed_bytes = 50, gzip_bytes = 20\<rparr>),
      (''d'', \<lparr>parsed_bytes = 10, gzip_bytes = 5\<rparr>),
      (''docs:/x'', \<lparr>parsed_bytes = 50, gzip_bytes = 20\<rparr>)]"

text \<open>The removed bundle of the specification, and a removed bundle of no parsed size.\<close>

definition removed_example :: SizeSnapshot where
  "removed_example = [(''b'', \<lparr>parsed_bytes = 100, gzip_bytes = 50\<rparr>)]"

definition removed_empty_example :: SizeSnapshot where
  "removed_empty_example = [(''b'', \<lparr>parsed_bytes = 0, gzip_bytes = 20\<rparr>)]"

text \<open>
  A snapshot whose one bundle has the name of a member that every object inherits, and
  a snapshot with an ordinary bundle that shares no identifier with it.
\<close>

definition constructor_example :: SizeSnapshot where
  "constructor_example = [(''constructor'', \<lparr>parsed_bytes = 100, gzip_bytes = 50\<rparr>)]"

definition ordinary_example :: SizeSnapshot where
  "ordinary_example = [(''a'', \<lparr>parsed_bytes = 10, gzip_bytes = 5\<rparr>)]"



text \<open>Two runs of one browser and one of another, for the test \<open>t\<close>.\<close>

definition report :: "rat \<Rightarrow> rat \<Rightarrow> ProfilerReport" where
  "report actual base =
     \<lparr>phase = ''mount'', actualDuration = actual, baseDuration = base, startTime = 0,
      commitTime = 0, interactions = []\<rparr>"

definition profiles_example :: "TestProfile list" where
  "profiles_example =
     [\<lparr>browserName = ''chrome'', profile = [(''t'', [report 3 2, report 1 1])], timestamp = 1\<rparr>,
      \<lparr>browserName = ''firefox'', profile = [(''t'', [report 5 4])], timestamp = 2\<rparr>,
      \<lparr>browserName = ''chrome'', profile = [(''t'', [report 1 1, report 2 2, report 7 6])],
       timestamp = 3\<rparr>,
      \<lparr>browserName = ''chrome'', profile = [(''u'', [report 9 9])], timestamp = 4\<rparr>]"

section \<open>Properties of objects\<close>

lemma set_set_property: "fst ` set (set_property ps k v) = insert k (fst ` set ps)"
  by (induction ps k v rule: set_property.induct) (auto simp: image_iff)

lemma distinct_set_property:
  "distinct (map fst ps) \<Longrightarrow> distinct (map fst (set_property ps k v))"
proof (induction ps)
  case Nil
  then show ?case by simp
next
  case (Cons p ps)
  obtain k' v' where p: "p = (k', v')" by (cases p)
  have "k' \<noteq> k \<Longrightarrow> k' \<notin> fst ` set (set_property ps k v)"
    using Cons.prems p by (simp add: set_set_property)
  with Cons p show ?case by auto
qed

lemma set_copy_data_properties_aux:
  "fst ` set (foldl (\<lambda>t p. set_property t (fst p) (snd p)) t qs) = fst ` set t \<union> fst ` set qs"
  by (induction qs arbitrary: t) (auto simp: set_set_property)

lemma distinct_copy_data_properties_aux:
  "distinct (map fst t) \<Longrightarrow>
   distinct (map fst (foldl (\<lambda>t p. set_property t (fst p) (snd p)) t qs))"
  by (induction qs arbitrary: t) (auto simp: distinct_set_property)

lemma set_own_properties: "set (own_properties obj) = set obj"
  by (auto simp: own_properties_def)

lemma distinct_own_properties:
  assumes "distinct (map fst obj)"
  shows "distinct (map fst (own_properties obj))"
proof -
  let ?ix = "filter (\<lambda>p. is_array_index (fst p)) obj"
  let ?rest = "filter (\<lambda>p. \<not> is_array_index (fst p)) obj"
  have d1: "distinct (map fst ?ix)" and d2: "distinct (map fst ?rest)"
    using assms by (simp_all add: distinct_map_filter)
  have d3: "distinct (map fst (sort_key (\<lambda>p. decimal_value (fst p)) ?ix))"
    using d1 by (simp add: distinct_map)
  have "fst ` set ?ix \<inter> fst ` set ?rest = {}"
    by auto
  with d2 d3 show ?thesis
    by (simp add: own_properties_def)
qed

lemma set_Object_keys: "set (Object_keys obj) = fst ` set obj"
  by (simp add: Object_keys_def set_own_properties)

lemma set_spread: "fst ` set (spread a b) = fst ` set a \<union> fst ` set b"
  by (simp add: spread_def copy_data_properties_def set_copy_data_properties_aux
      set_own_properties)

lemma distinct_spread: "distinct (map fst (spread a b))"
  by (simp add: spread_def copy_data_properties_def distinct_copy_data_properties_aux)

lemma set_bundleKeys:
  "set (bundleKeys baseSnapshot targetSnapshot) = fst ` set baseSnapshot \<union> fst ` set targetSnapshot"
  by (simp add: bundleKeys_def set_Object_keys set_spread)

lemma distinct_bundleKeys: "distinct (bundleKeys baseSnapshot targetSnapshot)"
  by (simp add: bundleKeys_def Object_keys_def distinct_own_properties distinct_spread)

section \<open>The entries of a comparison\<close>

lemma compute_main_map:
  "compute_main b t = map (entry b t) (bundleKeys b t)"
proof -
  have "foldl (\<lambda>main bundle. main @ [entry b t bundle]) acc ks = acc @ map (entry b t) ks"
    for acc ks
    by (induction ks arbitrary: acc) auto
  then show ?thesis by (simp add: compute_main_def)
qed

lemma foldl_push_entry:
  "foldl (push_entry b t) d ks =
     \<lparr>main = main d @ map (entry b t) (filter (\<lambda>k. \<not> startsWith k ''docs:'') ks),
      pages = pages d @ map (entry b t) (filter (\<lambda>k. startsWith k ''docs:'') ks)\<rparr>"
  by (induction ks arbitrary: d) (auto simp: push_entry_def)

lemma main_compute_main_pages:
  "main (compute_main_pages b t) =
     map (entry b t) (filter (\<lambda>k. \<not> startsWith k ''docs:'') (bundleKeys b t))"
  by (simp add: compute_main_pages_def foldl_push_entry)

lemma pages_compute_main_pages:
  "pages (compute_main_pages b t) =
     map (entry b t) (filter (\<lambda>k. startsWith k ''docs:'') (bundleKeys b t))"
  by (simp add: compute_main_pages_def foldl_push_entry)

lemma fst_entry: "fst (entry b t k) = k"
  by (simp add: entry_def Let_def)

lemma map_fst_entry: "map fst (map (entry b t) ks) = ks"
  by (induction ks) (simp_all add: fst_entry)

lemma ids_compute_main: "map fst (compute_main b t) = bundleKeys b t"
  by (simp only: compute_main_map map_fst_entry)

lemma ids_main:
  "map fst (main (compute_main_pages b t)) =
     filter (\<lambda>k. \<not> startsWith k ''docs:'') (bundleKeys b t)"
  by (simp only: main_compute_main_pages map_fst_entry)

lemma ids_pages:
  "map fst (pages (compute_main_pages b t)) =
     filter (\<lambda>k. startsWith k ''docs:'') (bundleKeys b t)"
  by (simp only: pages_compute_main_pages map_fst_entry)

lemma set_ids_entries_of:
  "set (map fst (entries_of (compute_main_pages b t))) = set (bundleKeys b t)"
  unfolding entries_of_def map_append ids_main ids_pages by auto

lemma distinct_ids_entries_of:
  "distinct (map fst (entries_of (compute_main_pages b t)))"
  unfolding entries_of_def map_append ids_main ids_pages
  using distinct_bundleKeys [of b t] by auto

lemma length_entries_of:
  "length (entries_of (compute_main_pages b t)) = length (bundleKeys b t)"
proof -
  have "length (map fst (entries_of (compute_main_pages b t)))
          = card (set (map fst (entries_of (compute_main_pages b t))))"
    using distinct_ids_entries_of by (metis distinct_card)
  also have "\<dots> = card (set (bundleKeys b t))"
    by (simp only: set_ids_entries_of)
  also have "\<dots> = length (bundleKeys b t)"
    by (simp add: distinct_bundleKeys distinct_card)
  finally show ?thesis by simp
qed

lemma bundleKeys_union: "set (bundleKeys b t) = key_set b \<union> key_set t"
  by (simp add: set_bundleKeys key_set_def)

lemma set_compute_main: "set (compute_main b t) = entry b t ` (key_set b \<union> key_set t)"
  by (simp add: compute_main_map bundleKeys_union)

lemma set_entries_of:
  "set (entries_of (compute_main_pages b t)) = entry b t ` (key_set b \<union> key_set t)"
proof -
  have "set (entries_of (compute_main_pages b t)) = entry b t ` set (bundleKeys b t)"
    by (auto simp: entries_of_def main_compute_main_pages pages_compute_main_pages)
  then show ?thesis by (simp only: bundleKeys_union)
qed

text \<open>An emitted entry is the entry of its own identifier, and the only one for it.\<close>

lemma emitted_entry:
  assumes "(k, s) \<in> set (compute_main b t) \<or> (k, s) \<in> set (entries_of (compute_main_pages b t))"
  shows "k \<in> key_set b \<union> key_set t" and "entry b t k = (k, s)"
proof -
  from assms have "(k, s) \<in> entry b t ` (key_set b \<union> key_set t)"
    by (simp only: set_compute_main set_entries_of simp_thms)
  then obtain k' where k': "k' \<in> key_set b \<union> key_set t" "(k, s) = entry b t k'"
    by blast
  then have "k = k'"
    by (metis fst_conv fst_entry)
  with k' show "k \<in> key_set b \<union> key_set t" and "entry b t k = (k, s)"
    by simp_all
qed

lemma entry_is_emitted:
  assumes "k \<in> key_set b \<union> key_set t"
  shows "map_of (compute_main b t) k = Some (snd (entry b t k))"
    and "map_of (entries_of (compute_main_pages b t)) k = Some (snd (entry b t k))"
proof -
  have e: "entry b t k = (k, snd (entry b t k))"
    by (metis fst_entry prod.collapse)
  have "(k, snd (entry b t k)) \<in> set (compute_main b t)"
    using assms e by (simp only: set_compute_main) (metis imageI)
  then show "map_of (compute_main b t) k = Some (snd (entry b t k))"
    using distinct_bundleKeys [of b t] by (simp only: map_of_is_SomeI ids_compute_main)
  have "(k, snd (entry b t k)) \<in> set (entries_of (compute_main_pages b t))"
    using assms e by (simp only: set_entries_of) (metis imageI)
  then show "map_of (entries_of (compute_main_pages b t)) k = Some (snd (entry b t k))"
    using distinct_ids_entries_of [of b t] by (simp only: map_of_is_SomeI)
qed

lemma get_None_iff: "get obj k = None \<longleftrightarrow> k \<notin> key_set obj"
  by (simp add: get_def key_set_def map_of_eq_None_iff)

section \<open>Properties of numbers\<close>

text \<open>
  The exponent that \<open>double\<close> takes is the binary exponent of its argument, and its
  result has a significand of 53 binary digits and is no further from the argument than
  half a unit of the last of them.
\<close>

lemma bitlen_positive: "0 < n \<Longrightarrow> 1 \<le> bitlen n"
  using bitlen_eq_zero_iff [of n] bitlen_nonneg [of n] by linarith

lemma power_int_negative: "(2 :: rat) powi (- int m) = 1 / 2 ^ m"
  unfolding power_int_minus power_int_of_nat by (simp add: inverse_eq_divide)

lemma binary_exponent_large:
  assumes "1 \<le> x"
  shows "2 powi binary_exponent x \<le> x" and "x < 2 powi (binary_exponent x + 1)"
proof -
  define n where "n = \<lfloor>x\<rfloor>"
  have n: "0 < n"
    using assms by (simp add: n_def)
  define e where "e = nat (bitlen n - 1)"
  have b: "bitlen n - 1 = int e" "bitlen n = int (Suc e)"
    using bitlen_positive [OF n] by (simp_all add: e_def)
  have x: "binary_exponent x = int e" "binary_exponent x + 1 = int (Suc e)"
    using assms by (simp_all add: binary_exponent_def n_def [symmetric] b)
  have ne: "nat (bitlen n - 1) = e" "nat (bitlen n) = Suc e"
    by (simp_all only: b(2) nat_int e_def [symmetric])
  have l: "2 ^ e \<le> n" and u: "n < 2 ^ Suc e"
    using bitlen_bounds [OF n] by (simp_all only: ne)
  have "rat_of_int (2 ^ e) \<le> rat_of_int n"
    using l by (simp only: of_int_le_iff)
  then have "(2 :: rat) ^ e \<le> rat_of_int n"
    by simp
  also have "rat_of_int n \<le> x"
    by (simp add: n_def)
  finally show "2 powi binary_exponent x \<le> x"
    by (simp only: x(1) power_int_of_nat)
  have "n + 1 \<le> 2 ^ Suc e"
    using u by simp
  then have "rat_of_int (n + 1) \<le> rat_of_int (2 ^ Suc e)"
    by (simp only: of_int_le_iff)
  then have "rat_of_int (n + 1) \<le> 2 ^ Suc e"
    by simp
  moreover have "x < rat_of_int (n + 1)"
    unfolding n_def by linarith
  ultimately have "x < 2 ^ Suc e"
    by (rule order_less_le_trans [rotated])
  then show "x < 2 powi (binary_exponent x + 1)"
    by (simp only: x(2) power_int_of_nat)
qed

lemma binary_exponent_small:
  assumes "0 < x" and "x < 1"
  shows "2 powi binary_exponent x \<le> x" and "x < 2 powi (binary_exponent x + 1)"
proof -
  define c where "c = \<lceil>1 / x\<rceil>"
  have y: "1 < 1 / x"
    using assms by simp
  then have c: "2 \<le> c"
    unfolding c_def by linarith
  then have p: "0 < c - 1"
    by simp
  define k where "k = nat (bitlen (c - 1) - 1)"
  define m where "m = Suc k"
  have b: "bitlen (c - 1) = int m" "bitlen (c - 1) - 1 = int k"
    using bitlen_positive [OF p] by (simp_all add: k_def m_def)
  have e: "binary_exponent x = - int m" "binary_exponent x + 1 = - int k"
    using assms by (simp_all add: binary_exponent_def c_def [symmetric] b m_def)
  have nk: "nat (bitlen (c - 1) - 1) = k" "nat (bitlen (c - 1)) = m"
    using b by linarith+
  have l: "2 ^ k \<le> c - 1" and u: "c - 1 < 2 ^ m"
    using bitlen_bounds [OF p] by (simp_all only: nk)
  have "c \<le> 2 ^ m"
    using u by simp
  then have "rat_of_int c \<le> rat_of_int (2 ^ m)"
    by (simp only: of_int_le_iff)
  then have "rat_of_int c \<le> 2 ^ m"
    by simp
  moreover have "1 / x \<le> rat_of_int c"
    unfolding c_def by linarith
  ultimately have "1 / x \<le> 2 ^ m"
    by (rule order_trans [rotated])
  then have "1 \<le> 2 ^ m * x"
    using assms(1) by (simp add: field_simps)
  then have "1 / 2 ^ m \<le> x"
    by (simp add: field_simps)
  then show "2 powi binary_exponent x \<le> x"
    by (simp only: e(1) power_int_negative)
  have "rat_of_int (2 ^ k) \<le> rat_of_int (c - 1)"
    using l by (simp only: of_int_le_iff)
  then have "2 ^ k \<le> rat_of_int (c - 1)"
    by simp
  moreover have "rat_of_int (c - 1) < 1 / x"
    unfolding c_def by linarith
  ultimately have "2 ^ k < 1 / x"
    by (rule order_le_less_trans)
  then have "2 ^ k * x < 1"
    using assms(1) by (simp add: field_simps)
  then have "x < 1 / 2 ^ k"
    by (simp add: field_simps)
  then show "x < 2 powi (binary_exponent x + 1)"
    by (simp only: e(2) power_int_negative)
qed

lemma binary_exponent_bounds:
  assumes "0 < x"
  shows "2 powi binary_exponent x \<le> x" and "x < 2 powi (binary_exponent x + 1)"
  using assms binary_exponent_large [of x] binary_exponent_small [of x]
  by (cases "1 \<le> x"; simp)+


lemma round_half_even_near:
  "\<bar>rat_of_int (round_half_even y) - y\<bar> \<le> 1 / 2"
  "rat_of_int \<lfloor>y\<rfloor> \<le> rat_of_int (round_half_even y)"
  "rat_of_int (round_half_even y) \<le> rat_of_int \<lfloor>y\<rfloor> + 1"
proof -
  have "rat_of_int \<lfloor>y\<rfloor> \<le> y" and "y < rat_of_int \<lfloor>y\<rfloor> + 1"
    by linarith+
  then show "\<bar>rat_of_int (round_half_even y) - y\<bar> \<le> 1 / 2"
    and "rat_of_int \<lfloor>y\<rfloor> \<le> rat_of_int (round_half_even y)"
    and "rat_of_int (round_half_even y) \<le> rat_of_int \<lfloor>y\<rfloor> + 1"
    by (simp_all add: round_half_even_def Let_def)
qed

lemma double_is_near:
  assumes "x \<noteq> 0"
  shows "\<exists>m. double x = sgn x * rat_of_int m * 2 powi (binary_exponent \<bar>x\<bar> - 52)
           \<and> 2 ^ 52 \<le> m \<and> m \<le> 2 ^ 53
           \<and> \<bar>double x - x\<bar> \<le> 2 powi (binary_exponent \<bar>x\<bar> - 53)"
proof -
  define e where "e = binary_exponent \<bar>x\<bar>"
  define y where "y = \<bar>x\<bar> * 2 powi (52 - e)"
  define m where "m = round_half_even y"
  have p: "0 < \<bar>x\<bar>"
    using assms by simp
  have d: "double x = sgn x * rat_of_int m * 2 powi (e - 52)"
    using assms by (simp add: double_def Let_def e_def y_def m_def)
  have pos: "(0 :: rat) < 2 powi k" for k
    by simp
  have s: "(2 :: rat) powi (52 - e) * 2 powi (e - 52) = 1"
    by (simp flip: power_int_add)
  have a: "\<bar>x\<bar> = y * 2 powi (e - 52)"
    unfolding y_def using s by (simp add: mult.assoc)
  have "2 powi e * 2 powi (52 - e) \<le> \<bar>x\<bar> * 2 powi (52 - e)"
    using binary_exponent_bounds(1) [OF p] pos [of "52 - e"]
    by (simp only: e_def [symmetric] mult_le_cancel_right_pos)
  moreover have "(2 :: rat) powi e * 2 powi (52 - e) = 2 ^ 52"
    by (simp flip: power_int_add)
  ultimately have l: "2 ^ 52 \<le> y"
    by (simp only: y_def)
  have "\<bar>x\<bar> * 2 powi (52 - e) < 2 powi (e + 1) * 2 powi (52 - e)"
    using binary_exponent_bounds(2) [OF p] pos [of "52 - e"]
    by (simp only: e_def [symmetric] mult_less_cancel_right_pos)
  moreover have "(2 :: rat) powi (e + 1) * 2 powi (52 - e) = 2 ^ 53"
    by (simp flip: power_int_add)
  ultimately have u: "y < 2 ^ 53"
    by (simp only: y_def)
  have "(2 :: int) ^ 52 \<le> \<lfloor>y\<rfloor>"
    using l by (simp add: le_floor_iff)
  then have "rat_of_int (2 ^ 52) \<le> rat_of_int \<lfloor>y\<rfloor>"
    by (simp only: of_int_le_iff)
  also have "\<dots> \<le> rat_of_int m"
    unfolding m_def by (rule round_half_even_near)
  finally have ml: "2 ^ 52 \<le> m"
    by (simp only: of_int_le_iff)
  have "\<lfloor>y\<rfloor> < 2 ^ 53"
    using u by (simp add: floor_less_iff)
  then have "\<lfloor>y\<rfloor> + 1 \<le> 2 ^ 53"
    by simp
  then have "rat_of_int (\<lfloor>y\<rfloor> + 1) \<le> rat_of_int (2 ^ 53)"
    by (simp only: of_int_le_iff)
  moreover have "rat_of_int m \<le> rat_of_int (\<lfloor>y\<rfloor> + 1)"
    unfolding m_def using round_half_even_near(3) [of y] by simp
  ultimately have "rat_of_int m \<le> rat_of_int (2 ^ 53)"
    by (rule order_trans [rotated])
  then have mu: "m \<le> 2 ^ 53"
    by (simp only: of_int_le_iff)
  have "double x - x = sgn x * 2 powi (e - 52) * (rat_of_int m - y)"
  proof -
    have "x = sgn x * \<bar>x\<bar>"
      by (simp add: sgn_mult_abs)
    then have "x = sgn x * (y * 2 powi (e - 52))"
      using a by simp
    then have "double x - x = sgn x * rat_of_int m * 2 powi (e - 52) - sgn x * (y * 2 powi (e - 52))"
      using d by simp
    then show ?thesis
      by (simp add: algebra_simps)
  qed
  then have "\<bar>double x - x\<bar> = 2 powi (e - 52) * \<bar>rat_of_int m - y\<bar>"
    using assms by (simp add: abs_mult)
  also have "\<dots> \<le> 2 powi (e - 52) * (1 / 2)"
    using round_half_even_near(1) [of y] pos [of "e - 52"]
    by (simp only: m_def mult_le_cancel_left_pos)
  also have "\<dots> = 2 powi (e - 53)"
  proof -
    have "(2 :: rat) powi (e - 53) * 2 powi 1 = 2 powi (e - 53 + 1)"
      by (rule power_int_add [symmetric]) simp
    then have "(2 :: rat) powi (e - 53) * 2 = 2 powi (e - 52)"
      by simp
    then show ?thesis
      by simp
  qed
  finally have n: "\<bar>double x - x\<bar> \<le> 2 powi (e - 53)" .
  from d ml mu n show ?thesis
    unfolding e_def by blast
qed

text \<open>Zero, one and minus one are doubles, and so is the double nearest to \<open>11 / 10\<close> less one.\<close>

lemma double_zero: "double 0 = 0"
  by (simp add: double_def)

lemma double_one: "double 1 = 1"
  by code_simp

lemma double_minus_one: "double (- 1) = - 1"
  by code_simp

lemma double_eleven_tenths: "double (11 / 10) = 2476979795053773 / 2251799813685248"
  by code_simp

lemma double_tenth: "double (double (11 / 10) - 1) = 225179981368525 / 2251799813685248"
  by code_simp

text \<open>An integer below \<open>2^53\<close> in magnitude is a double.\<close>

lemma round_half_even_of_int: "round_half_even (rat_of_int n) = n"
  by (simp add: round_half_even_def)

lemma double_of_positive:
  assumes "0 < n" and "n < 9007199254740992"
  shows "double (rat_of_int n) = rat_of_int n"
proof -
  define e where "e = bitlen n - 1"
  have b: "bitlen n \<le> 53"
    using assms(2) by (simp add: bitlen_le_iff_power)
  have p: "1 \<le> bitlen n"
    using assms(1) bitlen_eq_zero_iff [of n] bitlen_nonneg [of n] by linarith
  have e: "0 \<le> e" "0 \<le> 52 - e"
    using b p by (simp_all add: e_def)
  have x: "binary_exponent \<bar>rat_of_int n\<bar> = e"
    using assms(1) by (simp add: binary_exponent_def e_def)
  have "\<bar>rat_of_int n\<bar> * 2 powi (52 - e) = rat_of_int (n * 2 ^ nat (52 - e))"
    using assms(1) e(2) by (simp add: power_int_def)
  then have m: "round_half_even (\<bar>rat_of_int n\<bar> * 2 powi (52 - e)) = n * 2 ^ nat (52 - e)"
    by (simp only: round_half_even_of_int)
  have "(2 :: rat) powi (52 - e) * 2 powi (e - 52) = 1"
    by (simp flip: power_int_add)
  then have c: "(2 :: rat) ^ nat (52 - e) * 2 powi (e - 52) = 1"
    using e(2) by (simp add: power_int_def)
  have "double (rat_of_int n) = rat_of_int n * (2 ^ nat (52 - e) * 2 powi (e - 52))"
    using assms(1) unfolding double_def x Let_def m by simp
  then show ?thesis
    by (simp only: c mult_1_right)
qed

lemma double_minus: "double (- x) = - double x"
  by (simp add: double_def Let_def)

lemma double_of_int:
  assumes "\<bar>n\<bar> < 9007199254740992"
  shows "double (rat_of_int n) = rat_of_int n"
proof (cases "n = 0")
  case True
  then show ?thesis by (simp add: double_def)
next
  case False
  show ?thesis
  proof (cases "0 < n")
    case True
    then show ?thesis using assms by (simp add: double_of_positive)
  next
    case False
    with \<open>n \<noteq> 0\<close> have "0 < - n" "- n < 9007199254740992"
      using assms by simp_all
    then have "double (rat_of_int (- n)) = rat_of_int (- n)"
      by (rule double_of_positive)
    then show ?thesis
      by (simp add: double_minus)
  qed
qed

lemma relative_of_sizes:
  "p \<noteq> 0 \<Longrightarrow>
     minus_one (divide_sizes c p) = Finite (double (double (rat_of_int c / rat_of_int p) - 1))"
  "0 < c \<Longrightarrow> minus_one (divide_sizes c 0) = PosInfinity"
  "c < 0 \<Longrightarrow> minus_one (divide_sizes c 0) = NegInfinity"
  "minus_one (divide_sizes 0 0) = NaN"
  by (simp_all add: divide_sizes_def minus_one_def)

lemma relative_of_equal_sizes: "p \<noteq> 0 \<Longrightarrow> minus_one (divide_sizes p p) = Finite 0"
  by (simp add: relative_of_sizes double_one double_zero)

lemma relative_of_no_size: "p \<noteq> 0 \<Longrightarrow> minus_one (divide_sizes 0 p) = Finite (- 1)"
  by (simp add: relative_of_sizes double_zero double_minus_one)

section \<open>The entries of the comparison on the values of the language\<close>

lemma compute_main_js_map:
  "compute_main_js b t = map (entry_js b t) (bundleKeys b t)"
proof -
  have "foldl (\<lambda>main bundle. main @ [entry_js b t bundle]) acc ks = acc @ map (entry_js b t) ks"
    for acc ks
    by (induction ks arbitrary: acc) auto
  then show ?thesis by (simp add: compute_main_js_def)
qed

lemma foldl_push_entry_js:
  "foldl (push_entry_js b t) d ks =
     \<lparr>main_js = main_js d @ map (entry_js b t) (filter (\<lambda>k. \<not> startsWith k ''docs:'') ks),
      pages_js = pages_js d @ map (entry_js b t) (filter (\<lambda>k. startsWith k ''docs:'') ks)\<rparr>"
  by (induction ks arbitrary: d) (auto simp: push_entry_js_def)

lemma main_js_compute_main_pages_js:
  "main_js (compute_main_pages_js b t) =
     map (entry_js b t) (filter (\<lambda>k. \<not> startsWith k ''docs:'') (bundleKeys b t))"
  by (simp add: compute_main_pages_js_def foldl_push_entry_js)

lemma pages_js_compute_main_pages_js:
  "pages_js (compute_main_pages_js b t) =
     map (entry_js b t) (filter (\<lambda>k. startsWith k ''docs:'') (bundleKeys b t))"
  by (simp add: compute_main_pages_js_def foldl_push_entry_js)

lemma fst_entry_js: "fst (entry_js b t k) = k"
  by (simp add: entry_js_def Let_def)

lemma set_compute_main_js:
  "set (compute_main_js b t) = entry_js b t ` (key_set b \<union> key_set t)"
  by (simp add: compute_main_js_map bundleKeys_union)

lemma set_entries_of_js:
  "set (entries_of_js (compute_main_pages_js b t)) = entry_js b t ` (key_set b \<union> key_set t)"
proof -
  have "set (entries_of_js (compute_main_pages_js b t)) = entry_js b t ` set (bundleKeys b t)"
    by (auto simp: entries_of_js_def main_js_compute_main_pages_js
        pages_js_compute_main_pages_js)
  then show ?thesis by (simp only: bundleKeys_union)
qed

text \<open>An emitted entry is the entry of its own identifier, and every identifier has one.\<close>

lemma emitted_entry_js:
  assumes "(k, s) \<in> set (compute_main_js b t)
           \<or> (k, s) \<in> set (entries_of_js (compute_main_pages_js b t))"
  shows "k \<in> key_set b \<union> key_set t" and "entry_js b t k = (k, s)"
proof -
  from assms have "(k, s) \<in> entry_js b t ` (key_set b \<union> key_set t)"
    by (simp only: set_compute_main_js set_entries_of_js simp_thms)
  then obtain k' where k': "k' \<in> key_set b \<union> key_set t" "(k, s) = entry_js b t k'"
    by blast
  then have "k = k'"
    by (metis fst_conv fst_entry_js)
  with k' show "k \<in> key_set b \<union> key_set t" and "entry_js b t k = (k, s)"
    by simp_all
qed

lemma entry_js_is_emitted:
  assumes "k \<in> key_set b \<union> key_set t"
  shows "(k, snd (entry_js b t k)) \<in> set (compute_main_js b t)"
    and "(k, snd (entry_js b t k)) \<in> set (entries_of_js (compute_main_pages_js b t))"
proof -
  have e: "entry_js b t k = (k, snd (entry_js b t k))"
    by (metis fst_entry_js prod.collapse)
  show "(k, snd (entry_js b t k)) \<in> set (compute_main_js b t)"
    using assms e by (simp only: set_compute_main_js) (metis imageI)
  show "(k, snd (entry_js b t k)) \<in> set (entries_of_js (compute_main_pages_js b t))"
    using assms e by (simp only: set_entries_of_js) (metis imageI)
qed

lemma snd_entry_js_fields:
  "previous_js (parsed_js (snd (entry_js b t k))) = parsed_of (or_nullSnapshot_js (read b k))"
  "current_js (parsed_js (snd (entry_js b t k))) = parsed_of (or_nullSnapshot_js (read t k))"
  "absoluteDiff_js (parsed_js (snd (entry_js b t k)))
     = js_minus (ToNumber (parsed_of (or_nullSnapshot_js (read t k))))
         (ToNumber (parsed_of (or_nullSnapshot_js (read b k))))"
  "relativeDiff_js (parsed_js (snd (entry_js b t k)))
     = js_minus
         (js_divide (ToNumber (parsed_of (or_nullSnapshot_js (read t k))))
            (ToNumber (parsed_of (or_nullSnapshot_js (read b k)))))
         (Finite 1)"
  "previous_js (gzip_js (snd (entry_js b t k))) = gzip_of (or_nullSnapshot_js (read b k))"
  "current_js (gzip_js (snd (entry_js b t k))) = gzip_of (or_nullSnapshot_js (read t k))"
  "absoluteDiff_js (gzip_js (snd (entry_js b t k)))
     = js_minus (ToNumber (gzip_of (or_nullSnapshot_js (read t k))))
         (ToNumber (gzip_of (or_nullSnapshot_js (read b k))))"
  "relativeDiff_js (gzip_js (snd (entry_js b t k)))
     = js_minus
         (js_divide (ToNumber (gzip_of (or_nullSnapshot_js (read t k))))
            (ToNumber (gzip_of (or_nullSnapshot_js (read b k)))))
         (Finite 1)"
  by (simp_all add: entry_js_def Let_def)

lemma sizes_of_read:
  "parsed_of (or_nullSnapshot_js Missing) = Number (Finite 0)"
  "gzip_of (or_nullSnapshot_js Missing) = Number (Finite 0)"
  "parsed_of (or_nullSnapshot_js (Own m)) = Number (Finite (rat_of_int (parsed_bytes m)))"
  "gzip_of (or_nullSnapshot_js (Own m)) = Number (Finite (rat_of_int (gzip_bytes m)))"
  "parsed_of (or_nullSnapshot_js Inherited) = Undefined"
  "gzip_of (or_nullSnapshot_js Inherited) = Undefined"
  by (simp_all add: or_nullSnapshot_js_def nullSnapshot_def)

lemma quotient_less_one:
  "p \<noteq> 0 \<Longrightarrow>
     js_minus (js_divide (Finite c) (Finite p)) (Finite 1) = Finite (double (double (c / p) - 1))"
  "0 < c \<Longrightarrow> js_minus (js_divide (Finite c) (Finite 0)) (Finite 1) = PosInfinity"
  "js_minus (js_divide x NaN) (Finite 1) = NaN"
  "js_minus (js_divide NaN x) (Finite 1) = NaN"
  by (cases x; simp)+

section \<open>The two comparisons agree\<close>

text \<open>
  A read that does not meet an inherited member is the read of an own property, and an
  identifier that the object holds, or that names no inherited member, gives such a
  read.
\<close>

lemma read_own: "k \<in> key_set obj \<Longrightarrow> read obj k \<noteq> Inherited"
  by (auto simp: read_def key_set_def map_of_eq_None_iff split: option.split)

lemma read_own_value: "k \<in> key_set obj \<Longrightarrow> \<exists>v. read obj k = Own v"
proof -
  assume "k \<in> key_set obj"
  then have "map_of obj k \<noteq> None"
    by (simp add: key_set_def map_of_eq_None_iff)
  then show ?thesis
    by (auto simp: read_def)
qed

lemma read_missing:
  assumes "k \<notin> key_set obj" and "k \<notin> set Object_prototype"
  shows "read obj k = Missing"
proof -
  have "map_of obj k = None"
    using assms(1) by (simp add: key_set_def map_of_eq_None_iff)
  then show ?thesis
    using assms(2) by (simp add: read_def)
qed

lemma read_ordinary: "k \<notin> set Object_prototype \<Longrightarrow> read obj k \<noteq> Inherited"
  by (simp add: read_def split: option.split)

lemma read_get:
  "read obj k \<noteq> Inherited \<Longrightarrow> or_nullSnapshot_js (read obj k) = Entry (or_nullSnapshot (get obj k))"
  by (cases "map_of obj k")
    (simp_all add: read_def get_def or_nullSnapshot_js_def or_nullSnapshot_def split: if_splits)

lemma entry_js_agrees:
  assumes "read b k \<noteq> Inherited" and "read t k \<noteq> Inherited"
  shows "entry_js b t k = (k, Size_js_of (snd (entry b t k)))"
  by (simp add: entry_js_def entry_def Let_def read_get [OF assms(1)] read_get [OF assms(2)]
      Size_js_of_def SizeDiff_js_of_def divide_sizes_def minus_one_def)

lemma compute_main_js_agrees:
  assumes "\<And>k. k \<in> key_set b \<union> key_set t \<Longrightarrow> read b k \<noteq> Inherited \<and> read t k \<noteq> Inherited"
  shows "compute_main_js b t = map (\<lambda>e. (fst e, Size_js_of (snd e))) (compute_main b t)"
proof -
  have "entry_js b t k = (fst (entry b t k), Size_js_of (snd (entry b t k)))"
    if "k \<in> set (bundleKeys b t)" for k
    using that assms [of k] by (simp add: bundleKeys_union entry_js_agrees fst_entry)
  then show ?thesis
    by (simp add: compute_main_js_map compute_main_map)
qed

lemma compute_main_pages_js_agrees:
  assumes "\<And>k. k \<in> key_set b \<union> key_set t \<Longrightarrow> read b k \<noteq> Inherited \<and> read t k \<noteq> Inherited"
  shows "main_js (compute_main_pages_js b t)
           = map (\<lambda>e. (fst e, Size_js_of (snd e))) (main (compute_main_pages b t))"
    and "pages_js (compute_main_pages_js b t)
           = map (\<lambda>e. (fst e, Size_js_of (snd e))) (pages (compute_main_pages b t))"
proof -
  have "entry_js b t k = (fst (entry b t k), Size_js_of (snd (entry b t k)))"
    if "k \<in> set (bundleKeys b t)" for k
    using that assms [of k] by (simp add: bundleKeys_union entry_js_agrees fst_entry)
  then show "main_js (compute_main_pages_js b t)
           = map (\<lambda>e. (fst e, Size_js_of (snd e))) (main (compute_main_pages b t))"
    and "pages_js (compute_main_pages_js b t)
           = map (\<lambda>e. (fst e, Size_js_of (snd e))) (pages (compute_main_pages b t))"
    by (simp_all add: main_js_compute_main_pages_js pages_js_compute_main_pages_js
        main_compute_main_pages pages_compute_main_pages)
qed

lemma compute_main_js_itself:
  "compute_main_js A A = map (\<lambda>e. (fst e, Size_js_of (snd e))) (compute_main A A)"
  by (rule compute_main_js_agrees) (simp add: read_own)

lemma ids_compute_main_js: "map fst (compute_main_js b t) = map fst (compute_main b t)"
  by (simp add: compute_main_js_map compute_main_map fst_entry_js fst_entry comp_def)

lemma ids_entries_of_js:
  "map fst (main_js (compute_main_pages_js b t)) = map fst (main (compute_main_pages b t))"
  "map fst (pages_js (compute_main_pages_js b t)) = map fst (pages (compute_main_pages b t))"
  by (simp_all add: main_js_compute_main_pages_js pages_js_compute_main_pages_js
      main_compute_main_pages pages_compute_main_pages fst_entry_js fst_entry comp_def)

text \<open>
  The absolute change of sizes in byte counts is their exact difference; it is the
  double that the language computes when it is below \<open>2^53\<close> in magnitude.
\<close>

lemma absoluteDiff_js_of:
  "\<bar>absoluteDiff d\<bar> < 9007199254740992 \<Longrightarrow>
     absoluteDiff_js (SizeDiff_js_of d) = Finite (rat_of_int (absoluteDiff d))"
  by (simp add: SizeDiff_js_of_def double_of_int)

section \<open>The bundles of a comparison\<close>

text \<open>
  C2. For all snapshots \<open>A\<close> and \<open>B\<close>, the bundle identifiers of the emitted entries
  are the union of the keys of \<open>A\<close> and of \<open>B\<close>, each identifier is emitted once, and
  the number of entries is the size of that union. This holds for the entries of the
  route with one table and for those of the routes with two, taken together.
\<close>

theorem bundle_ids_are_the_union:
  "set (map fst (compute_main A B)) = key_set A \<union> key_set B
   \<and> distinct (map fst (compute_main A B))
   \<and> length (compute_main A B) = card (key_set A \<union> key_set B)
   \<and> set (map fst (entries_of (compute_main_pages A B))) = key_set A \<union> key_set B
   \<and> distinct (map fst (entries_of (compute_main_pages A B)))
   \<and> length (entries_of (compute_main_pages A B)) = card (key_set A \<union> key_set B)"
proof -
  have c: "length (bundleKeys A B) = card (key_set A \<union> key_set B)"
    using distinct_card [OF distinct_bundleKeys, of A B] bundleKeys_union [of A B] by simp
  have l: "length (compute_main A B) = length (bundleKeys A B)"
    by (simp add: compute_main_map)
  show ?thesis
    by (simp only: ids_compute_main set_ids_entries_of distinct_ids_entries_of
        length_entries_of bundleKeys_union c l distinct_bundleKeys simp_thms)
qed

theorem bundle_ids_are_the_union_witness:
  "set (map fst (compute_main base_example target_example))
     = {''a'', ''b'', ''c'', ''d'', ''docs:/x''}
   \<and> length (entries_of (compute_main_pages base_example target_example)) = 5"
proof -
  have k: "key_set base_example \<union> key_set target_example
             = {''a'', ''b'', ''c'', ''d'', ''docs:/x''}"
    by (auto simp: key_set_def base_example_def target_example_def)
  have "card {''a'', ''b'', ''c'', ''d'', ''docs:/x''} = 5"
    by simp
  with k show ?thesis
    using bundle_ids_are_the_union [of base_example target_example] by simp
qed

text \<open>
  C10. In the routes with two tables the entries are split by the prefix of the
  identifier: every identifier of the union that starts with \<open>docs:\<close> is in the list
  of pages, every other one in the main list; the two lists share no identifier and
  together hold the union of the keys.
\<close>

theorem entries_are_partitioned_by_prefix:
  "set (map fst (pages (compute_main_pages A B)))
     = {k. (k \<in> key_set A \<or> k \<in> key_set B) \<and> startsWith k ''docs:''}
   \<and> set (map fst (main (compute_main_pages A B)))
     = {k. (k \<in> key_set A \<or> k \<in> key_set B) \<and> \<not> startsWith k ''docs:''}
   \<and> set (map fst (main (compute_main_pages A B)))
       \<inter> set (map fst (pages (compute_main_pages A B))) = {}
   \<and> set (map fst (main (compute_main_pages A B)))
       \<union> set (map fst (pages (compute_main_pages A B))) = key_set A \<union> key_set B"
  unfolding ids_main ids_pages set_filter bundleKeys_union by auto

theorem entries_are_partitioned_by_prefix_witness:
  "''docs:/x'' \<in> set (map fst (pages (compute_main_pages base_example target_example)))
   \<and> ''a'' \<notin> set (map fst (pages (compute_main_pages base_example target_example)))
   \<and> ''a'' \<in> set (map fst (main (compute_main_pages base_example target_example)))
   \<and> ''docs:/x'' \<notin> set (map fst (main (compute_main_pages base_example target_example)))"
proof -
  have k: "key_set base_example = {''a'', ''c'', ''d''}"
    "key_set target_example = {''a'', ''b'', ''d'', ''docs:/x''}"
    by (simp_all add: key_set_def base_example_def target_example_def)
  note t = entries_are_partitioned_by_prefix [of base_example target_example]
  have p: "set (map fst (pages (compute_main_pages base_example target_example)))
      = {k. (k \<in> key_set base_example \<or> k \<in> key_set target_example)
            \<and> startsWith k ''docs:''}"
    by (rule t [THEN conjunct1])
  have m: "set (map fst (main (compute_main_pages base_example target_example)))
      = {k. (k \<in> key_set base_example \<or> k \<in> key_set target_example)
            \<and> \<not> startsWith k ''docs:''}"
    by (rule t [THEN conjunct2, THEN conjunct1])
  show ?thesis
    unfolding p m by (simp add: k startsWith_def)
qed

section \<open>The sizes of an entry\<close>

lemma snd_entry_fields:
  "previous (parsed (snd (entry b t k))) = parsed_bytes (or_nullSnapshot (get b k))"
  "current (parsed (snd (entry b t k))) = parsed_bytes (or_nullSnapshot (get t k))"
  "absoluteDiff (parsed (snd (entry b t k)))
     = parsed_bytes (or_nullSnapshot (get t k)) - parsed_bytes (or_nullSnapshot (get b k))"
  "relativeDiff (parsed (snd (entry b t k)))
     = minus_one (divide_sizes (parsed_bytes (or_nullSnapshot (get t k)))
         (parsed_bytes (or_nullSnapshot (get b k))))"
  "previous (gzip (snd (entry b t k))) = gzip_bytes (or_nullSnapshot (get b k))"
  "current (gzip (snd (entry b t k))) = gzip_bytes (or_nullSnapshot (get t k))"
  "absoluteDiff (gzip (snd (entry b t k)))
     = gzip_bytes (or_nullSnapshot (get t k)) - gzip_bytes (or_nullSnapshot (get b k))"
  "relativeDiff (gzip (snd (entry b t k)))
     = minus_one (divide_sizes (gzip_bytes (or_nullSnapshot (get t k)))
         (gzip_bytes (or_nullSnapshot (get b k))))"
  by (simp_all add: entry_def Let_def)

lemma or_nullSnapshot_bytes:
  "parsed_bytes (or_nullSnapshot r) = (case r of None \<Rightarrow> 0 | Some m \<Rightarrow> parsed_bytes m)"
  "gzip_bytes (or_nullSnapshot r) = (case r of None \<Rightarrow> 0 | Some m \<Rightarrow> gzip_bytes m)"
  by (simp_all add: or_nullSnapshot_def nullSnapshot_def split: option.split)

text \<open>
  Where neither read of an identifier meets an inherited member, the entry has the size
  in base as \<open>previous\<close> and the size in target as \<open>current\<close>, each zero when the
  snapshot has no entry for the identifier, and the absolute change is their difference.
\<close>

lemma sizes_of_ordinary_bundle:
  assumes "k \<in> key_set base \<union> key_set target"
    and "read base k \<noteq> Inherited" and "read target k \<noteq> Inherited"
  shows "\<exists>s. (k, s) \<in> set (compute_main_js base target)
     \<and> (k, s) \<in> set (entries_of_js (compute_main_pages_js base target))
     \<and> previous_js (parsed_js s)
         = Number (Finite (rat_of_int (case get base k of None \<Rightarrow> 0 | Some m \<Rightarrow> parsed_bytes m)))
     \<and> current_js (parsed_js s)
         = Number (Finite (rat_of_int (case get target k of None \<Rightarrow> 0 | Some m \<Rightarrow> parsed_bytes m)))
     \<and> previous_js (gzip_js s)
         = Number (Finite (rat_of_int (case get base k of None \<Rightarrow> 0 | Some m \<Rightarrow> gzip_bytes m)))
     \<and> current_js (gzip_js s)
         = Number (Finite (rat_of_int (case get target k of None \<Rightarrow> 0 | Some m \<Rightarrow> gzip_bytes m)))
     \<and> absoluteDiff_js (parsed_js s)
         = js_minus (ToNumber (current_js (parsed_js s))) (ToNumber (previous_js (parsed_js s)))
     \<and> absoluteDiff_js (gzip_js s)
         = js_minus (ToNumber (current_js (gzip_js s))) (ToNumber (previous_js (gzip_js s)))"
proof (intro exI conjI)
  show "(k, snd (entry_js base target k)) \<in> set (compute_main_js base target)"
    and "(k, snd (entry_js base target k))
           \<in> set (entries_of_js (compute_main_pages_js base target))"
    using assms(1) by (rule entry_js_is_emitted)+
qed (simp_all add: snd_entry_js_fields read_get [OF assms(2)] read_get [OF assms(3)]
      or_nullSnapshot_bytes)

text \<open>
  C3, at an input where the code does not do what the specification says. The bundle
  \<open>constructor\<close> is in base, with 100 parsed and 50 gzipped bytes, and not in target.
  The specification gives it \<open>current = 0\<close> and \<open>absoluteDiff = -100\<close>. The read of the
  target finds the member \<open>constructor\<close> that every object inherits, so the default
  is not taken: \<open>current\<close> is \<open>undefined\<close> and the two changes are \<open>NaN\<close>, in the
  route with one table and in the routes with two.
\<close>

theorem constructor_is_not_defaulted:
  "compute_main_js constructor_example [] =
     [(''constructor'',
       \<lparr>parsed_js = \<lparr>previous_js = Number (Finite 100), current_js = Undefined,
                     absoluteDiff_js = NaN, relativeDiff_js = NaN\<rparr>,
        gzip_js = \<lparr>previous_js = Number (Finite 50), current_js = Undefined,
                   absoluteDiff_js = NaN, relativeDiff_js = NaN\<rparr>\<rparr>)]
   \<and> entries_of_js (compute_main_pages_js constructor_example []) =
     [(''constructor'',
       \<lparr>parsed_js = \<lparr>previous_js = Number (Finite 100), current_js = Undefined,
                     absoluteDiff_js = NaN, relativeDiff_js = NaN\<rparr>,
        gzip_js = \<lparr>previous_js = Number (Finite 50), current_js = Undefined,
                   absoluteDiff_js = NaN, relativeDiff_js = NaN\<rparr>\<rparr>)]"
  by code_simp

section \<open>The relative change\<close>

lemma compute_main_example:
  "compute_main base_example target_example =
     [(''a'', \<lparr>parsed = \<lparr>previous = 1000, current = 1100, absoluteDiff = 100,
                           relativeDiff = Finite (225179981368525 / 2251799813685248)\<rparr>,
               gzip = \<lparr>previous = 400, current = 440, absoluteDiff = 40,
                         relativeDiff = Finite (225179981368525 / 2251799813685248)\<rparr>\<rparr>),
      (''c'', \<lparr>parsed = \<lparr>previous = 100, current = 0, absoluteDiff = - 100,
                           relativeDiff = Finite (- 1)\<rparr>,
               gzip = \<lparr>previous = 50, current = 0, absoluteDiff = - 50,
                         relativeDiff = Finite (- 1)\<rparr>\<rparr>),
      (''d'', \<lparr>parsed = \<lparr>previous = 10, current = 10, absoluteDiff = 0,
                           relativeDiff = Finite 0\<rparr>,
               gzip = \<lparr>previous = 5, current = 5, absoluteDiff = 0,
                         relativeDiff = Finite 0\<rparr>\<rparr>),
      (''b'', \<lparr>parsed = \<lparr>previous = 0, current = 50, absoluteDiff = 50,
                           relativeDiff = PosInfinity\<rparr>,
               gzip = \<lparr>previous = 0, current = 20, absoluteDiff = 20,
                         relativeDiff = PosInfinity\<rparr>\<rparr>),
      (''docs:/x'', \<lparr>parsed = \<lparr>previous = 0, current = 50, absoluteDiff = 50,
                                 relativeDiff = PosInfinity\<rparr>,
                     gzip = \<lparr>previous = 0, current = 20, absoluteDiff = 20,
                               relativeDiff = PosInfinity\<rparr>\<rparr>)]"
  by code_simp

text \<open>
  C4. For every emitted entry and both sizes, \<open>relativeDiff\<close> is
  \<open>current / previous - 1\<close> in the arithmetic of the language: the quotient, rounded
  to a double, less one, rounded again, when both are finite and \<open>previous\<close> is not
  zero, and positive infinity when \<open>previous\<close> is zero and \<open>current\<close> is positive.
  The fields are those of the snapshots: \<open>current\<close> is the size that target holds
  for the identifier and \<open>previous\<close> the size that base holds, zero where the read
  gives \<open>undefined\<close>. So a bundle that target holds with a positive size and that the
  read of base does not find is newly added: its \<open>previous\<close> is zero, its
  \<open>current\<close> is its size and its \<open>relativeDiff\<close> is positive infinity. Every
  identifier of the two snapshots has an entry. The operators give a value in every
  case; nothing is thrown and no value is clamped.
\<close>

theorem relativeDiff_of_entry:
  "((k, s) \<in> set (compute_main_js base target)
      \<or> (k, s) \<in> set (entries_of_js (compute_main_pages_js base target)) \<longrightarrow>
      relativeDiff_js (parsed_js s)
        = js_minus
            (js_divide (ToNumber (current_js (parsed_js s))) (ToNumber (previous_js (parsed_js s))))
            (Finite 1)
      \<and> relativeDiff_js (gzip_js s)
        = js_minus
            (js_divide (ToNumber (current_js (gzip_js s))) (ToNumber (previous_js (gzip_js s))))
            (Finite 1)
      \<and> (\<forall>c p. current_js (parsed_js s) = Number (Finite c)
             \<and> previous_js (parsed_js s) = Number (Finite p) \<and> p \<noteq> 0 \<longrightarrow>
             relativeDiff_js (parsed_js s) = Finite (double (double (c / p) - 1)))
      \<and> (\<forall>c p. current_js (gzip_js s) = Number (Finite c)
             \<and> previous_js (gzip_js s) = Number (Finite p) \<and> p \<noteq> 0 \<longrightarrow>
             relativeDiff_js (gzip_js s) = Finite (double (double (c / p) - 1)))
      \<and> (\<forall>c. previous_js (parsed_js s) = Number (Finite 0)
             \<and> current_js (parsed_js s) = Number (Finite c) \<and> 0 < c \<longrightarrow>
             relativeDiff_js (parsed_js s) = PosInfinity)
      \<and> (\<forall>c. previous_js (gzip_js s) = Number (Finite 0)
             \<and> current_js (gzip_js s) = Number (Finite c) \<and> 0 < c \<longrightarrow>
             relativeDiff_js (gzip_js s) = PosInfinity)
      \<and> (\<forall>m. read target k = Own m \<longrightarrow>
             current_js (parsed_js s) = Number (Finite (rat_of_int (parsed_bytes m)))
             \<and> current_js (gzip_js s) = Number (Finite (rat_of_int (gzip_bytes m))))
      \<and> (read target k = Missing \<longrightarrow>
             current_js (parsed_js s) = Number (Finite 0)
             \<and> current_js (gzip_js s) = Number (Finite 0))
      \<and> (\<forall>m. read base k = Own m \<longrightarrow>
             previous_js (parsed_js s) = Number (Finite (rat_of_int (parsed_bytes m)))
             \<and> previous_js (gzip_js s) = Number (Finite (rat_of_int (gzip_bytes m))))
      \<and> (read base k = Missing \<longrightarrow>
             previous_js (parsed_js s) = Number (Finite 0)
             \<and> previous_js (gzip_js s) = Number (Finite 0))
      \<and> (\<forall>m. read base k = Missing \<and> read target k = Own m \<longrightarrow>
             (0 < parsed_bytes m \<longrightarrow> relativeDiff_js (parsed_js s) = PosInfinity)
             \<and> (0 < gzip_bytes m \<longrightarrow> relativeDiff_js (gzip_js s) = PosInfinity)))
   \<and> (k' \<in> key_set base \<union> key_set target \<longrightarrow>
        (\<exists>s'. (k', s') \<in> set (compute_main_js base target))
        \<and> (\<exists>s'. (k', s') \<in> set (entries_of_js (compute_main_pages_js base target))))"
proof (intro conjI)
  show "k' \<in> key_set base \<union> key_set target \<longrightarrow>
        (\<exists>s'. (k', s') \<in> set (compute_main_js base target))
        \<and> (\<exists>s'. (k', s') \<in> set (entries_of_js (compute_main_pages_js base target)))"
    using entry_js_is_emitted [of k' base target] by blast
  show "(k, s) \<in> set (compute_main_js base target)
      \<or> (k, s) \<in> set (entries_of_js (compute_main_pages_js base target)) \<longrightarrow>
      relativeDiff_js (parsed_js s)
        = js_minus
            (js_divide (ToNumber (current_js (parsed_js s))) (ToNumber (previous_js (parsed_js s))))
            (Finite 1)
      \<and> relativeDiff_js (gzip_js s)
        = js_minus
            (js_divide (ToNumber (current_js (gzip_js s))) (ToNumber (previous_js (gzip_js s))))
            (Finite 1)
      \<and> (\<forall>c p. current_js (parsed_js s) = Number (Finite c)
             \<and> previous_js (parsed_js s) = Number (Finite p) \<and> p \<noteq> 0 \<longrightarrow>
             relativeDiff_js (parsed_js s) = Finite (double (double (c / p) - 1)))
      \<and> (\<forall>c p. current_js (gzip_js s) = Number (Finite c)
             \<and> previous_js (gzip_js s) = Number (Finite p) \<and> p \<noteq> 0 \<longrightarrow>
             relativeDiff_js (gzip_js s) = Finite (double (double (c / p) - 1)))
      \<and> (\<forall>c. previous_js (parsed_js s) = Number (Finite 0)
             \<and> current_js (parsed_js s) = Number (Finite c) \<and> 0 < c \<longrightarrow>
             relativeDiff_js (parsed_js s) = PosInfinity)
      \<and> (\<forall>c. previous_js (gzip_js s) = Number (Finite 0)
             \<and> current_js (gzip_js s) = Number (Finite c) \<and> 0 < c \<longrightarrow>
             relativeDiff_js (gzip_js s) = PosInfinity)
      \<and> (\<forall>m. read target k = Own m \<longrightarrow>
             current_js (parsed_js s) = Number (Finite (rat_of_int (parsed_bytes m)))
             \<and> current_js (gzip_js s) = Number (Finite (rat_of_int (gzip_bytes m))))
      \<and> (read target k = Missing \<longrightarrow>
             current_js (parsed_js s) = Number (Finite 0)
             \<and> current_js (gzip_js s) = Number (Finite 0))
      \<and> (\<forall>m. read base k = Own m \<longrightarrow>
             previous_js (parsed_js s) = Number (Finite (rat_of_int (parsed_bytes m)))
             \<and> previous_js (gzip_js s) = Number (Finite (rat_of_int (gzip_bytes m))))
      \<and> (read base k = Missing \<longrightarrow>
             previous_js (parsed_js s) = Number (Finite 0)
             \<and> previous_js (gzip_js s) = Number (Finite 0))
      \<and> (\<forall>m. read base k = Missing \<and> read target k = Own m \<longrightarrow>
             (0 < parsed_bytes m \<longrightarrow> relativeDiff_js (parsed_js s) = PosInfinity)
             \<and> (0 < gzip_bytes m \<longrightarrow> relativeDiff_js (gzip_js s) = PosInfinity))"
  proof (rule impI, intro conjI)
    assume e: "(k, s) \<in> set (compute_main_js base target)
        \<or> (k, s) \<in> set (entries_of_js (compute_main_pages_js base target))"
    have s: "s = snd (entry_js base target k)"
      using emitted_entry_js(2) [OF e] by simp
    show p: "relativeDiff_js (parsed_js s)
          = js_minus
              (js_divide (ToNumber (current_js (parsed_js s))) (ToNumber (previous_js (parsed_js s))))
              (Finite 1)"
      and g: "relativeDiff_js (gzip_js s)
          = js_minus
              (js_divide (ToNumber (current_js (gzip_js s))) (ToNumber (previous_js (gzip_js s))))
              (Finite 1)"
      unfolding s by (simp_all only: snd_entry_js_fields)
    show "\<forall>c p. current_js (parsed_js s) = Number (Finite c)
               \<and> previous_js (parsed_js s) = Number (Finite p) \<and> p \<noteq> 0 \<longrightarrow>
               relativeDiff_js (parsed_js s) = Finite (double (double (c / p) - 1))"
      and "\<forall>c. previous_js (parsed_js s) = Number (Finite 0)
               \<and> current_js (parsed_js s) = Number (Finite c) \<and> 0 < c \<longrightarrow>
               relativeDiff_js (parsed_js s) = PosInfinity"
      using p by (simp_all add: quotient_less_one)
    show "\<forall>c p. current_js (gzip_js s) = Number (Finite c)
               \<and> previous_js (gzip_js s) = Number (Finite p) \<and> p \<noteq> 0 \<longrightarrow>
               relativeDiff_js (gzip_js s) = Finite (double (double (c / p) - 1))"
      and "\<forall>c. previous_js (gzip_js s) = Number (Finite 0)
               \<and> current_js (gzip_js s) = Number (Finite c) \<and> 0 < c \<longrightarrow>
               relativeDiff_js (gzip_js s) = PosInfinity"
      using g by (simp_all add: quotient_less_one)
    show "\<forall>m. read target k = Own m \<longrightarrow>
               current_js (parsed_js s) = Number (Finite (rat_of_int (parsed_bytes m)))
               \<and> current_js (gzip_js s) = Number (Finite (rat_of_int (gzip_bytes m)))"
      and "read target k = Missing \<longrightarrow>
               current_js (parsed_js s) = Number (Finite 0)
               \<and> current_js (gzip_js s) = Number (Finite 0)"
      and "\<forall>m. read base k = Own m \<longrightarrow>
               previous_js (parsed_js s) = Number (Finite (rat_of_int (parsed_bytes m)))
               \<and> previous_js (gzip_js s) = Number (Finite (rat_of_int (gzip_bytes m)))"
      and "read base k = Missing \<longrightarrow>
               previous_js (parsed_js s) = Number (Finite 0)
               \<and> previous_js (gzip_js s) = Number (Finite 0)"
      and "\<forall>m. read base k = Missing \<and> read target k = Own m \<longrightarrow>
               (0 < parsed_bytes m \<longrightarrow> relativeDiff_js (parsed_js s) = PosInfinity)
               \<and> (0 < gzip_bytes m \<longrightarrow> relativeDiff_js (gzip_js s) = PosInfinity)"
      unfolding s by (simp_all add: snd_entry_js_fields sizes_of_read quotient_less_one)
  qed
qed

theorem relativeDiff_of_entry_witness:
  "(\<exists>s. (''b'', s) \<in> set (compute_main_js base_example target_example)
      \<and> previous_js (parsed_js s) = Number (Finite 0)
      \<and> current_js (parsed_js s) = Number (Finite 50)
      \<and> relativeDiff_js (parsed_js s) = PosInfinity
      \<and> relativeDiff_js (gzip_js s) = PosInfinity)
   \<and> (\<exists>s. (''a'', s) \<in> set (entries_of_js (compute_main_pages_js base_example target_example))
      \<and> previous_js (parsed_js s) = Number (Finite 1000)
      \<and> current_js (parsed_js s) = Number (Finite 1100)
      \<and> relativeDiff_js (parsed_js s) = Finite (225179981368525 / 2251799813685248))"
proof (intro conjI)
  have k: "''b'' \<in> key_set base_example \<union> key_set target_example"
    "''a'' \<in> key_set base_example \<union> key_set target_example"
    by (simp_all add: key_set_def base_example_def target_example_def)
  have r: "read base_example ''b'' = Missing"
    "read target_example ''b'' = Own \<lparr>parsed_bytes = 50, gzip_bytes = 20\<rparr>"
    "read base_example ''a'' = Own \<lparr>parsed_bytes = 1000, gzip_bytes = 400\<rparr>"
    "read target_example ''a'' = Own \<lparr>parsed_bytes = 1100, gzip_bytes = 440\<rparr>"
    by (simp_all add: read_def base_example_def target_example_def Object_prototype_def)
  note t = relativeDiff_of_entry [of _ _ base_example target_example]
  from t [of "''b''" _ "''b''", THEN conjunct2] k(1)
  obtain s where s: "(''b'', s) \<in> set (compute_main_js base_example target_example)"
    by blast
  from t [of "''b''" s, THEN conjunct1] s
  have "previous_js (parsed_js s) = Number (Finite 0)
      \<and> current_js (parsed_js s) = Number (Finite 50)
      \<and> relativeDiff_js (parsed_js s) = PosInfinity
      \<and> relativeDiff_js (gzip_js s) = PosInfinity"
    by (simp add: r)
  with s show "\<exists>s. (''b'', s) \<in> set (compute_main_js base_example target_example)
      \<and> previous_js (parsed_js s) = Number (Finite 0)
      \<and> current_js (parsed_js s) = Number (Finite 50)
      \<and> relativeDiff_js (parsed_js s) = PosInfinity
      \<and> relativeDiff_js (gzip_js s) = PosInfinity"
    by blast
  from t [of "''a''" _ "''a''", THEN conjunct2] k(2)
  obtain u where u: "(''a'', u) \<in> set (entries_of_js (compute_main_pages_js base_example target_example))"
    by blast
  from t [of "''a''" u, THEN conjunct1] u
  have f: "previous_js (parsed_js u) = Number (Finite 1000)
      \<and> current_js (parsed_js u) = Number (Finite 1100)"
    and q: "\<forall>c p. current_js (parsed_js u) = Number (Finite c)
             \<and> previous_js (parsed_js u) = Number (Finite p) \<and> p \<noteq> 0 \<longrightarrow>
             relativeDiff_js (parsed_js u) = Finite (double (double (c / p) - 1))"
    by (simp_all add: r)
  from q [rule_format, of 1100 1000] f
  have "relativeDiff_js (parsed_js u) = Finite (double (double (1100 / 1000) - 1))"
    by simp
  then have "relativeDiff_js (parsed_js u) = Finite (225179981368525 / 2251799813685248)"
    by (simp add: double_tenth)
  with u f show "\<exists>s. (''a'', s) \<in> set (entries_of_js (compute_main_pages_js base_example target_example))
      \<and> previous_js (parsed_js s) = Number (Finite 1000)
      \<and> current_js (parsed_js s) = Number (Finite 1100)
      \<and> relativeDiff_js (parsed_js s) = Finite (225179981368525 / 2251799813685248)"
    by blast
qed

text \<open>
  C6. For every snapshot \<open>A\<close>, every entry of the comparison of \<open>A\<close> with itself has
  \<open>absoluteDiff = 0\<close> for both sizes, and \<open>relativeDiff = 0\<close> for each size whose
  \<open>previous\<close> is not zero.
\<close>

theorem comparison_with_itself:
  assumes "(k, s) \<in> set (compute_main A A)
           \<or> (k, s) \<in> set (entries_of (compute_main_pages A A))"
  shows "absoluteDiff (parsed s) = 0 \<and> absoluteDiff (gzip s) = 0
     \<and> (previous (parsed s) \<noteq> 0 \<longrightarrow> relativeDiff (parsed s) = Finite 0)
     \<and> (previous (gzip s) \<noteq> 0 \<longrightarrow> relativeDiff (gzip s) = Finite 0)"
proof -
  have s: "s = snd (entry A A k)"
    using emitted_entry(2) [OF assms] by simp
  show ?thesis
    unfolding s by (simp add: snd_entry_fields relative_of_equal_sizes)
qed

lemma compute_main_itself_example:
  "compute_main removed_example removed_example =
     [(''b'', \<lparr>parsed = \<lparr>previous = 100, current = 100, absoluteDiff = 0,
                           relativeDiff = Finite 0\<rparr>,
               gzip = \<lparr>previous = 50, current = 50, absoluteDiff = 0,
                         relativeDiff = Finite 0\<rparr>\<rparr>)]"
  by code_simp

theorem comparison_with_itself_witness:
  "absoluteDiff \<lparr>previous = 100, current = 100, absoluteDiff = 0, relativeDiff = Finite 0\<rparr> = 0
   \<and> relativeDiff \<lparr>previous = 100, current = 100, absoluteDiff = 0, relativeDiff = Finite 0\<rparr>
       = Finite 0"
proof -
  let ?s = "\<lparr>parsed = \<lparr>previous = 100, current = 100, absoluteDiff = 0,
                          relativeDiff = Finite 0\<rparr>,
              gzip = \<lparr>previous = 50, current = 50, absoluteDiff = 0,
                        relativeDiff = Finite 0\<rparr>\<rparr>"
  have "(''b'', ?s) \<in> set (compute_main removed_example removed_example)"
    unfolding compute_main_itself_example by simp
  then have "(''b'', ?s) \<in> set (compute_main removed_example removed_example)
      \<or> (''b'', ?s) \<in> set (entries_of (compute_main_pages removed_example removed_example))"
    by (rule disjI1)
  from comparison_with_itself [OF this] show ?thesis
    by simp
qed

text \<open>
  The same holds on the values of the language, where every read of the comparison of
  a snapshot with itself finds an own property.
\<close>

lemma comparison_with_itself_js:
  assumes "(k, s) \<in> set (compute_main_js A A)"
  shows "absoluteDiff_js (parsed_js s) = Finite 0 \<and> absoluteDiff_js (gzip_js s) = Finite 0
     \<and> (previous_js (parsed_js s) \<noteq> Number (Finite 0) \<longrightarrow> relativeDiff_js (parsed_js s) = Finite 0)
     \<and> (previous_js (gzip_js s) \<noteq> Number (Finite 0) \<longrightarrow> relativeDiff_js (gzip_js s) = Finite 0)"
proof -
  from assms obtain e where e: "e \<in> set (compute_main A A)" and k: "k = fst e"
    and s: "s = Size_js_of (snd e)"
    unfolding compute_main_js_itself by auto
  have "e = entry A A (fst e)"
    using emitted_entry(2) [of "fst e" "snd e" A A] e by simp
  then have "snd e = snd (entry A A (fst e))"
    by simp
  then show ?thesis
    unfolding s
    by (simp add: Size_js_of_def SizeDiff_js_of_def snd_entry_fields relative_of_equal_sizes
        double_zero)
qed

section \<open>Removed bundles, empty and disjoint snapshots\<close>

text \<open>
  A bundle that base holds and the read of target does not find is removed: its
  \<open>current\<close> is zero and its relative change is \<open>-1\<close> for each size that is not
  zero. A bundle that target holds and the read of base does not find is added.
\<close>

lemma removed_bundle_js:
  assumes "read base k = Own m" and "read target k = Missing"
  shows "previous_js (parsed_js (snd (entry_js base target k)))
           = Number (Finite (rat_of_int (parsed_bytes m)))"
    and "current_js (parsed_js (snd (entry_js base target k))) = Number (Finite 0)"
    and "absoluteDiff_js (parsed_js (snd (entry_js base target k)))
           = Finite (double (- rat_of_int (parsed_bytes m)))"
    and "previous_js (gzip_js (snd (entry_js base target k)))
           = Number (Finite (rat_of_int (gzip_bytes m)))"
    and "current_js (gzip_js (snd (entry_js base target k))) = Number (Finite 0)"
    and "absoluteDiff_js (gzip_js (snd (entry_js base target k)))
           = Finite (double (- rat_of_int (gzip_bytes m)))"
    and "parsed_bytes m \<noteq> 0 \<Longrightarrow>
           relativeDiff_js (parsed_js (snd (entry_js base target k))) = Finite (- 1)"
    and "gzip_bytes m \<noteq> 0 \<Longrightarrow>
           relativeDiff_js (gzip_js (snd (entry_js base target k))) = Finite (- 1)"
    and "parsed_bytes m = 0 \<Longrightarrow>
           relativeDiff_js (parsed_js (snd (entry_js base target k))) = NaN"
    and "gzip_bytes m = 0 \<Longrightarrow>
           relativeDiff_js (gzip_js (snd (entry_js base target k))) = NaN"
  by (simp_all add: snd_entry_js_fields assms sizes_of_read double_zero double_minus_one)

lemma added_bundle_js:
  assumes "read target k = Own m" and "read base k = Missing"
  shows "previous_js (parsed_js (snd (entry_js base target k))) = Number (Finite 0)"
    and "current_js (parsed_js (snd (entry_js base target k)))
           = Number (Finite (rat_of_int (parsed_bytes m)))"
    and "absoluteDiff_js (parsed_js (snd (entry_js base target k)))
           = Finite (double (rat_of_int (parsed_bytes m)))"
    and "previous_js (gzip_js (snd (entry_js base target k))) = Number (Finite 0)"
    and "current_js (gzip_js (snd (entry_js base target k)))
           = Number (Finite (rat_of_int (gzip_bytes m)))"
    and "absoluteDiff_js (gzip_js (snd (entry_js base target k)))
           = Finite (double (rat_of_int (gzip_bytes m)))"
    and "0 < parsed_bytes m \<Longrightarrow>
           relativeDiff_js (parsed_js (snd (entry_js base target k))) = PosInfinity"
    and "0 < gzip_bytes m \<Longrightarrow>
           relativeDiff_js (gzip_js (snd (entry_js base target k))) = PosInfinity"
  by (simp_all add: snd_entry_js_fields assms sizes_of_read)

text \<open>The removed bundle of the specification.\<close>

lemma removed_example_js:
  "compute_main_js removed_example [] =
     [(''b'',
       \<lparr>parsed_js = \<lparr>previous_js = Number (Finite 100), current_js = Number (Finite 0),
                     absoluteDiff_js = Finite (- 100), relativeDiff_js = Finite (- 1)\<rparr>,
        gzip_js = \<lparr>previous_js = Number (Finite 50), current_js = Number (Finite 0),
                   absoluteDiff_js = Finite (- 50), relativeDiff_js = Finite (- 1)\<rparr>\<rparr>)]"
  by code_simp

text \<open>
  C5, at an input where the code does not do what the specification says. The bundle \<open>b\<close> is
  in base, with no parsed bytes and 20 gzipped bytes, and not in target. The specification
  gives a removed bundle the relative change \<open>-1\<close>, and so does the comment of the
  loop. For the parsed size the code computes \<open>0 / 0 - 1\<close>, which is \<open>NaN\<close>; for
  the gzipped size it computes \<open>-1\<close>.
\<close>

theorem removed_empty_bundle_is_not_a_number:
  "compute_main_js removed_empty_example [] =
     [(''b'',
       \<lparr>parsed_js = \<lparr>previous_js = Number (Finite 0), current_js = Number (Finite 0),
                     absoluteDiff_js = Finite 0, relativeDiff_js = NaN\<rparr>,
        gzip_js = \<lparr>previous_js = Number (Finite 20), current_js = Number (Finite 0),
                   absoluteDiff_js = Finite (- 20), relativeDiff_js = Finite (- 1)\<rparr>\<rparr>)]
   \<and> entries_of_js (compute_main_pages_js removed_empty_example []) =
     [(''b'',
       \<lparr>parsed_js = \<lparr>previous_js = Number (Finite 0), current_js = Number (Finite 0),
                     absoluteDiff_js = Finite 0, relativeDiff_js = NaN\<rparr>,
        gzip_js = \<lparr>previous_js = Number (Finite 20), current_js = Number (Finite 0),
                   absoluteDiff_js = Finite (- 20), relativeDiff_js = Finite (- 1)\<rparr>\<rparr>)]"
  by code_simp

text \<open>
  The comparison has no step that throws, whatever the snapshots: every read gives a
  value and every operator a number. Two empty snapshots give no entry.
\<close>

lemma empty_snapshots_js:
  "compute_main_js [] [] = []"
  "entries_of_js (compute_main_pages_js [] []) = []"
  by code_simp+

text \<open>
  Where two snapshots share no identifier and no identifier names an inherited member,
  every bundle of base is removed and every bundle of target is added.
\<close>

lemma disjoint_ordinary_snapshots_js:
  assumes "key_set A \<inter> key_set B = {}"
    and "(key_set A \<union> key_set B) \<inter> set Object_prototype = {}"
  shows "k \<in> key_set A \<Longrightarrow>
           \<exists>m s. read A k = Own m \<and> (k, s) \<in> set (compute_main_js A B)
             \<and> current_js (parsed_js s) = Number (Finite 0)
             \<and> current_js (gzip_js s) = Number (Finite 0)
             \<and> previous_js (parsed_js s) = Number (Finite (rat_of_int (parsed_bytes m)))
             \<and> previous_js (gzip_js s) = Number (Finite (rat_of_int (gzip_bytes m)))"
    and "k \<in> key_set B \<Longrightarrow>
           \<exists>m s. read B k = Own m \<and> (k, s) \<in> set (compute_main_js A B)
             \<and> previous_js (parsed_js s) = Number (Finite 0)
             \<and> previous_js (gzip_js s) = Number (Finite 0)
             \<and> current_js (parsed_js s) = Number (Finite (rat_of_int (parsed_bytes m)))
             \<and> current_js (gzip_js s) = Number (Finite (rat_of_int (gzip_bytes m)))"
proof -
  show "\<exists>m s. read A k = Own m \<and> (k, s) \<in> set (compute_main_js A B)
             \<and> current_js (parsed_js s) = Number (Finite 0)
             \<and> current_js (gzip_js s) = Number (Finite 0)
             \<and> previous_js (parsed_js s) = Number (Finite (rat_of_int (parsed_bytes m)))
             \<and> previous_js (gzip_js s) = Number (Finite (rat_of_int (gzip_bytes m)))"
    if k: "k \<in> key_set A"
  proof -
    obtain m where m: "read A k = Own m"
      using read_own_value [OF k] by blast
    have t: "read B k = Missing"
      using k assms by (intro read_missing) auto
    have "(k, snd (entry_js A B k)) \<in> set (compute_main_js A B)"
      using k by (intro entry_js_is_emitted) simp
    then show ?thesis
      using m removed_bundle_js [OF m t] by blast
  qed
  show "\<exists>m s. read B k = Own m \<and> (k, s) \<in> set (compute_main_js A B)
             \<and> previous_js (parsed_js s) = Number (Finite 0)
             \<and> previous_js (gzip_js s) = Number (Finite 0)
             \<and> current_js (parsed_js s) = Number (Finite (rat_of_int (parsed_bytes m)))
             \<and> current_js (gzip_js s) = Number (Finite (rat_of_int (gzip_bytes m)))"
    if k: "k \<in> key_set B"
  proof -
    obtain m where m: "read B k = Own m"
      using read_own_value [OF k] by blast
    have b: "read A k = Missing"
      using k assms by (intro read_missing) auto
    have "(k, snd (entry_js A B k)) \<in> set (compute_main_js A B)"
      using k by (intro entry_js_is_emitted) simp
    then show ?thesis
      using m added_bundle_js [OF m b] by blast
  qed
qed

text \<open>
  C7, at an input where the code does not do what the specification says. The two snapshots
  share no identifier: base holds \<open>a\<close> and target holds \<open>constructor\<close>. Nothing
  is thrown and each bundle has an entry, and \<open>a\<close> is shown as removed. The specification
  shows \<open>constructor\<close> as added, with \<open>previous = 0\<close>. The read of base finds the
  member \<open>constructor\<close> that every object inherits, so \<open>previous\<close> is
  \<open>undefined\<close> and the two changes are \<open>NaN\<close>.
\<close>

theorem disjoint_bundle_is_not_added:
  "compute_main_js ordinary_example constructor_example =
     [(''a'',
       \<lparr>parsed_js = \<lparr>previous_js = Number (Finite 10), current_js = Number (Finite 0),
                     absoluteDiff_js = Finite (- 10), relativeDiff_js = Finite (- 1)\<rparr>,
        gzip_js = \<lparr>previous_js = Number (Finite 5), current_js = Number (Finite 0),
                   absoluteDiff_js = Finite (- 5), relativeDiff_js = Finite (- 1)\<rparr>\<rparr>),
      (''constructor'',
       \<lparr>parsed_js = \<lparr>previous_js = Undefined, current_js = Number (Finite 100),
                     absoluteDiff_js = NaN, relativeDiff_js = NaN\<rparr>,
        gzip_js = \<lparr>previous_js = Undefined, current_js = Number (Finite 50),
                   absoluteDiff_js = NaN, relativeDiff_js = NaN\<rparr>\<rparr>)]
   \<and> entries_of_js (compute_main_pages_js ordinary_example constructor_example) =
     [(''a'',
       \<lparr>parsed_js = \<lparr>previous_js = Number (Finite 10), current_js = Number (Finite 0),
                     absoluteDiff_js = Finite (- 10), relativeDiff_js = Finite (- 1)\<rparr>,
        gzip_js = \<lparr>previous_js = Number (Finite 5), current_js = Number (Finite 0),
                   absoluteDiff_js = Finite (- 5), relativeDiff_js = Finite (- 1)\<rparr>\<rparr>),
      (''constructor'',
       \<lparr>parsed_js = \<lparr>previous_js = Undefined, current_js = Number (Finite 100),
                     absoluteDiff_js = NaN, relativeDiff_js = NaN\<rparr>,
        gzip_js = \<lparr>previous_js = Undefined, current_js = Number (Finite 50),
                   absoluteDiff_js = NaN, relativeDiff_js = NaN\<rparr>\<rparr>)]"
  by code_simp

section \<open>The order of the rows\<close>
























section \<open>The median\<close>

lemma insert_sorted_minus:
  fixes x :: rat
  shows "insert_sorted (\<lambda>a b. a - b) x ys = insort x ys"
  by (induction ys) simp_all

lemma array_sort_minus:
  fixes xs :: "rat list"
  shows "array_sort (\<lambda>a b. a - b) xs = sort xs"
  by (induction xs) (simp_all add: array_sort_def insert_sorted_minus)

lemma shift_right_length:
  assumes "n < 2147483648"
  shows "shift_right (int n) 1 = int (n div 2)"
proof -
  have "int n mod 4294967296 = int n"
    using assms by simp
  then have "ToInt32 (int n) = int n"
    using assms by (simp add: ToInt32_def)
  then show ?thesis
    by (simp add: shift_right_def zdiv_int)
qed

lemma mean_of_timings:
  assumes "timings \<noteq> []" and "length timings < 2147483648"
  shows "mean timings = Some (sort timings ! (length timings div 2))"
    and "TimingAnalysisMean format timings = Some (format (sort timings ! (length timings div 2)))"
    and "sort timings ! (length timings div 2) \<in> set timings"
proof -
  have i: "length timings div 2 < length timings"
    using assms(1) by simp
  show m: "mean timings = Some (sort timings ! (length timings div 2))"
    unfolding mean_def array_sort_minus shift_right_length [OF assms(2)] array_at_def
    using i by simp
  then show "TimingAnalysisMean format timings
      = Some (format (sort timings ! (length timings div 2)))"
    by (simp add: TimingAnalysisMean_def)
  have "sort timings ! (length timings div 2) \<in> set (sort timings)"
    using i by (simp only: nth_mem length_sort)
  then show "sort timings ! (length timings div 2) \<in> set timings"
    by simp
qed

text \<open>The inner loop is \<open>squash_into\<close>, behind the renders that it has passed.\<close>

lemma foldl_add_report:
  "foldl add_report (pre @ rs) (zip ts [length pre..<length pre + length ts])
     = pre @ squash_into rs ts"
proof (induction ts arbitrary: pre rs)
  case Nil
  then show ?case by simp
next
  case (Cons t ts)
  have z: "zip (t # ts) [length pre..<length pre + length (t # ts)]
      = (t, length pre) # zip ts [Suc (length pre)..<Suc (length pre) + length ts]"
    by (subst upt_rec) simp
  show ?case
  proof (cases rs)
    case Nil
    have "add_report (pre @ rs) (t, length pre) = (pre @ [Some (squash t)]) @ []"
      by (simp add: Nil add_report_def read_index_def write_index_def)
    then show ?thesis
      unfolding z using Cons.IH [of "pre @ [Some (squash t)]" "[]"] by (simp add: Nil)
  next
    case (Cons x rs')
    let ?y = "case x of None \<Rightarrow> Some (squash t) | Some r \<Rightarrow> Some (push_report r t)"
    have "add_report (pre @ rs) (t, length pre) = (pre @ [?y]) @ rs'"
      by (simp add: Cons add_report_def read_index_def write_index_def split: option.split)
    then show ?thesis
      unfolding z using Cons.IH [of "pre @ [?y]" rs'] by (simp add: Cons)
  qed
qed

lemma inner_loop:
  "foldl add_report renders (zip ts [0..<length ts]) = squash_into renders ts"
  using foldl_add_report [of "[]" renders ts] by simp

lemma measured_mono: "measured n x \<Longrightarrow> n \<le> m \<Longrightarrow> measured m x"
  by (auto simp: measured_def split: option.splits)

lemma measured_Suc: "measured n x \<Longrightarrow> measured (Suc n) x"
  by (erule measured_mono) simp

lemma measured_squash: "measured (Suc n) (Some (squash t))"
  by (simp add: measured_def squash_def)

lemma measured_push_report: "measured n (Some r) \<Longrightarrow> measured (Suc n) (Some (push_report r t))"
  by (simp add: measured_def push_report_def)

lemma measured_squash_into:
  "list_all (measured n) rs \<Longrightarrow> list_all (measured (Suc n)) (squash_into rs ts)"
proof (induction rs ts rule: squash_into.induct)
  case (1 rs)
  then show ?case
    by (simp add: list_all_iff measured_Suc)
next
  case (2 t ts)
  then show ?case by (simp add: measured_squash)
next
  case (3 x rs t ts)
  then show ?case
    by (cases x) (simp_all add: measured_squash measured_push_report)
qed

lemma set_property_subset: "set (set_property ps k v) \<subseteq> insert (k, v) (set ps)"
  by (induction ps k v rule: set_property.induct) auto

text \<open>A round of the outer loop that gives a value gives the closed form.\<close>

lemma read_Missing_get: "read obj k = Missing \<Longrightarrow> get obj k = None"
  by (cases "map_of obj k") (simp_all add: read_def get_def split: if_splits)

lemma read_Own_get: "read obj k = Own v \<Longrightarrow> get obj k = Some v"
  by (cases "map_of obj k") (simp_all add: read_def get_def split: if_splits)

lemma squash_into_Nil: "squash_into [] ts = map (\<lambda>t. Some (squash t)) ts"
  by (induction ts) simp_all

lemma add_profile_Value:
  assumes "add_profile testId profiles tp = Value profiles'"
  shows "profiles' = squashed testId profiles tp"
proof (cases "read (profile tp) testId")
  case Missing
  with assms show ?thesis
    by (simp add: add_profile_def squashed_def reports_of_def)
next
  case Inherited
  with assms show ?thesis
    by (simp add: add_profile_def squashed_def reports_of_def split: option.splits if_splits)
next
  case (Own ts)
  show ?thesis
  proof (cases "ts = []")
    case True
    with assms Own show ?thesis
      by (simp add: add_profile_def squashed_def reports_of_def)
  next
    case False
    show ?thesis
    proof (cases "read profiles (browserName tp)")
      case Missing
      with assms Own False show ?thesis
        by (simp add: add_profile_def squashed_def reports_of_def renders_of_def
            read_Missing_get squash_into_Nil)
    next
      case (Own renders)
      with assms \<open>read (profile tp) testId = Own ts\<close> False show ?thesis
        by (simp add: add_profile_def squashed_def reports_of_def renders_of_def
            read_Own_get inner_loop)
    next
      case Inherited
      with assms Own False show ?thesis
        by (simp add: add_profile_def)
    qed
  qed
qed

lemma add_profile_ordinary:
  assumes "testId \<notin> set Object_prototype" and "browserName tp \<notin> set Object_prototype"
  shows "\<exists>profiles'. add_profile testId profiles tp = Value profiles'"
proof -
  have "read (profile tp) testId \<noteq> Inherited" and "read profiles (browserName tp) \<noteq> Inherited"
    using assms by (simp_all add: read_ordinary)
  then show ?thesis
    by (cases "read (profile tp) testId"; cases "read profiles (browserName tp)")
      (simp_all add: add_profile_def)
qed

lemma foldl_no_value:
  "foldl
     (\<lambda>acc tp. case acc of
        Value profiles \<Rightarrow> add_profile testId profiles tp
      | TypeError \<Rightarrow> TypeError
      | Unfollowed \<Rightarrow> Unfollowed) TypeError tps = TypeError"
  "foldl
     (\<lambda>acc tp. case acc of
        Value profiles \<Rightarrow> add_profile testId profiles tp
      | TypeError \<Rightarrow> TypeError
      | Unfollowed \<Rightarrow> Unfollowed) Unfollowed tps = Unfollowed"
  by (induction tps) simp_all

lemma foldl_add_profile_Value:
  assumes "foldl
     (\<lambda>acc tp. case acc of
        Value profiles \<Rightarrow> add_profile testId profiles tp
      | TypeError \<Rightarrow> TypeError
      | Unfollowed \<Rightarrow> Unfollowed) (Value profiles) tps = Value result"
  shows "result = foldl (squashed testId) profiles tps"
  using assms
proof (induction tps arbitrary: profiles)
  case Nil
  then show ?case by simp
next
  case (Cons tp tps)
  show ?case
  proof (cases "add_profile testId profiles tp")
    case (Value profiles')
    then have "profiles' = squashed testId profiles tp"
      by (rule add_profile_Value)
    with Cons.prems Value Cons.IH [of profiles'] show ?thesis
      by simp
  next
    case TypeError
    with Cons.prems show ?thesis
      by (simp add: foldl_no_value)
  next
    case Unfollowed
    with Cons.prems show ?thesis
      by (simp add: foldl_no_value)
  qed
qed

lemma foldl_add_profile_ordinary:
  assumes "testId \<notin> set Object_prototype"
    and "\<forall>tp \<in> set tps. browserName tp \<notin> set Object_prototype"
  shows "\<exists>result. foldl
     (\<lambda>acc tp. case acc of
        Value profiles \<Rightarrow> add_profile testId profiles tp
      | TypeError \<Rightarrow> TypeError
      | Unfollowed \<Rightarrow> Unfollowed) (Value profiles) tps = Value result"
  using assms(2)
proof (induction tps arbitrary: profiles)
  case Nil
  then show ?case by simp
next
  case (Cons tp tps)
  obtain profiles' where "add_profile testId profiles tp = Value profiles'"
    using add_profile_ordinary [OF assms(1), of tp profiles] Cons.prems by auto
  with Cons.IH [of profiles'] Cons.prems show ?case
    by simp
qed

lemma profilesByBrowserName_Value:
  "profilesByBrowserName testId tps = Value profiles \<Longrightarrow>
     profiles = foldl (squashed testId) [] tps"
  unfolding profilesByBrowserName_def by (rule foldl_add_profile_Value)

lemma profilesByBrowserName_ordinary:
  assumes "testId \<notin> set Object_prototype"
    and "\<forall>tp \<in> set tps. browserName tp \<notin> set Object_prototype"
  shows "\<exists>profiles. profilesByBrowserName testId tps = Value profiles"
  unfolding profilesByBrowserName_def using assms by (rule foldl_add_profile_ordinary)

text \<open>
  A test that is named like an inherited function of one or two parameters ends the
  loop with a \<open>TypeError\<close>, at the first profile that has no property of that name of
  its own.
\<close>

lemma add_profile_inherited:
  assumes "read (profile tp) testId = Inherited" and "member_length testId = Some n" and "0 < n"
  shows "add_profile testId profiles tp = TypeError"
  using assms by (simp add: add_profile_def)

lemma profilesByBrowserName_constructor:
  "profilesByBrowserName ''constructor'' profiles_example = TypeError"
  by code_simp

text \<open>Every render of the closed form holds the measurements of at most as many runs.\<close>

lemma measured_squashed:
  assumes "\<forall>p \<in> set profiles. list_all (measured n) (snd p)"
  shows "\<forall>p \<in> set (squashed testId profiles tp). list_all (measured (Suc n)) (snd p)"
proof -
  have old: "list_all (measured (Suc n)) (snd p)" if "p \<in> set profiles" for p
    using assms that by (auto simp: list_all_iff intro: measured_Suc)
  have new: "list_all (measured (Suc n)) (snd p)"
    if "p \<in> set (set_property profiles b rs)" and "list_all (measured (Suc n)) rs" for p b rs
  proof -
    have "p = (b, rs) \<or> p \<in> set profiles"
      using that(1) set_property_subset [of profiles b rs] by blast
    then show ?thesis
      using that(2) old by (elim disjE) simp_all
  qed
  have "list_all (measured n) (renders_of profiles (browserName tp))"
  proof (cases "get profiles (browserName tp)")
    case None
    then show ?thesis by (simp add: renders_of_def)
  next
    case (Some renders)
    then have "(browserName tp, renders) \<in> set profiles"
      by (simp add: get_def map_of_SomeD)
    then show ?thesis
      using assms Some by (auto simp: renders_of_def)
  qed
  then have "list_all (measured (Suc n))
      (squash_into (renders_of profiles (browserName tp)) (reports_of testId tp))"
    by (rule measured_squash_into)
  then show ?thesis
    using old new by (auto simp: squashed_def)
qed

lemma measured_foldl_squashed:
  assumes "\<forall>p \<in> set profiles. list_all (measured n) (snd p)"
  shows "\<forall>p \<in> set (foldl (squashed testId) profiles tps).
           list_all (measured (n + length tps)) (snd p)"
  using assms
proof (induction tps arbitrary: profiles n)
  case Nil
  then show ?case by simp
next
  case (Cons tp tps)
  have "\<forall>p \<in> set (squashed testId profiles tp). list_all (measured (Suc n)) (snd p)"
    using Cons.prems by (rule measured_squashed)
  from Cons.IH [OF this] show ?case by simp
qed

lemma measured_squashed_profiles:
  assumes "p \<in> set (foldl (squashed testId) [] tps)" and "x \<in> set (snd p)"
  shows "measured (length tps) x"
proof -
  have "\<forall>p \<in> set (foldl (squashed testId) [] tps).
           list_all (measured (0 + length tps)) (snd p)"
    by (rule measured_foldl_squashed) simp
  with assms show ?thesis
    by (auto simp: list_all_iff)
qed

text \<open>The renders of a browser are its runs, squashed one after the other.\<close>

lemma get_set_property:
  "get (set_property ps k v) k' = (if k' = k then Some v else get ps k')"
  by (induction ps k v rule: set_property.induct) (auto simp: get_def)

lemma renders_of_squashed:
  "renders_of (squashed testId profiles tp) b
     = (if browserName tp = b \<and> reports_of testId tp \<noteq> []
        then squash_into (renders_of profiles b) (reports_of testId tp)
        else renders_of profiles b)"
  by (auto simp: squashed_def renders_of_def get_set_property)

lemma renders_of_foldl:
  "renders_of (foldl (squashed testId) profiles tps) b
     = foldl squash_into (renders_of profiles b) (runs_of testId b tps)"
proof (induction tps arbitrary: profiles)
  case Nil
  then show ?case by (simp add: runs_of_def)
next
  case (Cons tp tps)
  show ?case
    using Cons.IH [of "squashed testId profiles tp"]
    by (simp add: runs_of_def renders_of_squashed)
qed

text \<open>The browsers of the closed form are those with a run that reports the test.\<close>

lemma keys_squashed:
  "fst ` set (squashed testId profiles tp)
     = fst ` set profiles \<union> (if reports_of testId tp = [] then {} else {browserName tp})"
  by (simp add: squashed_def set_set_property)

lemma keys_foldl_squashed:
  "fst ` set (foldl (squashed testId) profiles tps)
     = fst ` set profiles \<union> {b. runs_of testId b tps \<noteq> []}"
proof (induction tps arbitrary: profiles)
  case Nil
  then show ?case by (simp add: runs_of_def)
next
  case (Cons tp tps)
  have "{b. runs_of testId b (tp # tps) \<noteq> []}
      = (if reports_of testId tp = [] then {} else {browserName tp})
        \<union> {b. runs_of testId b tps \<noteq> []}"
    by (auto simp: runs_of_def)
  then show ?case
    using Cons.IH [of "squashed testId profiles tp"] by (simp add: keys_squashed Un_assoc)
qed

lemma distinct_squashed:
  "distinct (map fst profiles) \<Longrightarrow> distinct (map fst (squashed testId profiles tp))"
  by (simp add: squashed_def distinct_set_property)

lemma distinct_foldl_squashed:
  "distinct (map fst profiles) \<Longrightarrow> distinct (map fst (foldl (squashed testId) profiles tps))"
  by (induction tps arbitrary: profiles) (simp_all add: distinct_squashed)

text \<open>What squashing does at an index, for renders without a hole.\<close>

lemma length_squash_into: "length (squash_into rs ts) = max (length rs) (length ts)"
  by (induction rs ts rule: squash_into.induct) simp_all

lemma nth_squash_into:
  assumes "i < max (length rs) (length ts)"
  shows "squash_into rs ts ! i =
     (if i < length ts
      then (if i < length rs
            then (case rs ! i of None \<Rightarrow> Some (squash (ts ! i))
                  | Some r \<Rightarrow> Some (push_report r (ts ! i)))
            else Some (squash (ts ! i)))
      else rs ! i)"
  using assms
proof (induction rs ts arbitrary: i rule: squash_into.induct)
  case (1 rs)
  then show ?case by simp
next
  case (2 t ts)
  then show ?case by (cases i) simp_all
next
  case (3 x rs t ts)
  then show ?case by (cases i) (simp_all split: option.split)
qed

lemma collected_foldl_squash_into:
  "length (foldl squash_into [] runs) = foldr max (map length runs) 0
   \<and> (\<forall>i < length (foldl squash_into [] runs). collected runs i (foldl squash_into [] runs ! i))"
proof (induction runs rule: rev_induct)
  case Nil
  then show ?case by simp
next
  case (snoc ts runs)
  let ?rs = "foldl squash_into [] runs"
  have l: "length ?rs = foldr max (map length runs) 0"
    and c: "\<And>i. i < length ?rs \<Longrightarrow> collected runs i (?rs ! i)"
    using snoc.IH by simp_all
  have f: "foldl squash_into [] (runs @ [ts]) = squash_into ?rs ts"
    by simp
  have m: "foldr max (map length (runs @ [ts])) 0 = max (foldr max (map length runs) 0) (length ts)"
    by (induction runs) (simp_all add: max.assoc)
  have n: "\<not> i < length ?rs \<Longrightarrow> measurements_at d i runs = []" for i d
  proof -
    assume "\<not> i < length ?rs"
    then have "foldr max (map length runs) 0 \<le> i"
      using l by simp
    then have "\<forall>ts \<in> set runs. \<not> i < length ts"
      by (induction runs) auto
    then show ?thesis
      by (simp add: measurements_at_def filter_empty_conv)
  qed
  have "collected (runs @ [ts]) i (squash_into ?rs ts ! i)"
    if i: "i < max (length ?rs) (length ts)" for i
  proof (cases "i < length ts")
    case True
    show ?thesis
    proof (cases "i < length ?rs")
      case True
      from c [OF True] obtain r where r: "?rs ! i = Some r"
        and a: "actualDurations r = measurements_at actualDuration i runs"
        and b: "baseDurations r = measurements_at baseDuration i runs"
        by (cases "?rs ! i") (auto simp: collected_def)
      show ?thesis
        using i \<open>i < length ts\<close> True r a b
        by (simp add: nth_squash_into collected_def push_report_def measurements_at_def)
    next
      case False
      show ?thesis
        using i True False n [OF False]
        by (simp add: nth_squash_into collected_def squash_def measurements_at_def)
    qed
  next
    case False
    with i have "i < length ?rs" by simp
    with c [OF this] show ?thesis
      using i False
      by (simp add: nth_squash_into collected_def measurements_at_def split: option.splits)
  qed
  then show ?case
    unfolding f m by (simp add: length_squash_into l)
qed

lemma renders_of_squashed_profiles:
  assumes "p \<in> set (foldl (squashed testId) [] tps)"
  shows "snd p = foldl squash_into [] (runs_of testId (fst p) tps)"
proof -
  have "distinct (map fst (foldl (squashed testId) [] tps))"
    by (rule distinct_foldl_squashed) simp
  then have "get (foldl (squashed testId) [] tps) (fst p) = Some (snd p)"
    using assms by (simp add: get_def map_of_is_SomeI)
  then have "renders_of (foldl (squashed testId) [] tps) (fst p) = snd p"
    by (simp add: renders_of_def)
  then show ?thesis
    using renders_of_foldl [of testId "[]" tps "fst p"] by (simp add: renders_of_def get_def)
qed

lemma collected_squashed_profiles:
  assumes "p \<in> set (foldl (squashed testId) [] tps)"
  shows "length (snd p) = foldr max (map length (runs_of testId (fst p) tps)) 0"
    and "i < length (snd p) \<Longrightarrow> collected (runs_of testId (fst p) tps) i (snd p ! i)"
  using collected_foldl_squash_into [of "runs_of testId (fst p) tps"]
  unfolding renders_of_squashed_profiles [OF assms] by simp_all

text \<open>
  C8. For every non-empty list of timings the value that is shown is the element at
  index \<open>floor(n / 2)\<close> of the list in ascending order, the median, and it is one of
  the timings. The lists that the page shows are those of the aggregation. Where the
  test and the browsers are not named like members that every object inherits, the
  aggregation gives a value. Where it gives a value, its browsers are those with a run
  that reports the test, each once; the renders of a browser are as many as the reports
  of its longest run; the render at an index holds the actual and the base durations
  that the runs of the browser report for the test at that index, in the order of the
  runs; none of its lists is empty, and the page shows the median of each. The index of
  the median is computed by a shift on 32-bit integers, so a list is taken to have
  fewer than \<open>2^31\<close> elements; the lists of the page have no more elements than there
  are test profiles.
\<close>

theorem mean_is_the_median:
  "(timings \<noteq> [] \<and> length timings < 2147483648 \<longrightarrow>
      mean timings = Some (sort timings ! (length timings div 2))
      \<and> TimingAnalysisMean format timings
          = Some (format (sort timings ! (length timings div 2)))
      \<and> sort timings ! (length timings div 2) \<in> set timings
      \<and> sorted (sort timings) \<and> mset (sort timings) = mset timings)
   \<and> (testId \<notin> set Object_prototype
       \<and> (\<forall>tp \<in> set testProfiles. browserName tp \<notin> set Object_prototype) \<longrightarrow>
      (\<exists>result. profilesByBrowserName testId testProfiles = Value result))
   \<and> (length testProfiles < 2147483648
       \<and> profilesByBrowserName testId testProfiles = Value profiles \<longrightarrow>
      distinct (map fst profiles)
      \<and> fst ` set profiles = {b. runs_of testId b testProfiles \<noteq> []}
      \<and> (\<forall>p \<in> set profiles.
           length (snd p) = foldr max (map length (runs_of testId (fst p) testProfiles)) 0
           \<and> (\<forall>i < length (snd p).
                \<exists>r. snd p ! i = Some r
                  \<and> actualDurations r
                      = measurements_at actualDuration i (runs_of testId (fst p) testProfiles)
                  \<and> baseDurations r
                      = measurements_at baseDuration i (runs_of testId (fst p) testProfiles)
                  \<and> actualDurations r \<noteq> [] \<and> baseDurations r \<noteq> []
                  \<and> TimingAnalysisMean format (actualDurations r)
                      = Some (format (sort (actualDurations r)
                                ! (length (actualDurations r) div 2)))
                  \<and> TimingAnalysisMean format (baseDurations r)
                      = Some (format (sort (baseDurations r)
                                ! (length (baseDurations r) div 2))))))"
proof (intro conjI)
  show "timings \<noteq> [] \<and> length timings < 2147483648 \<longrightarrow>
      mean timings = Some (sort timings ! (length timings div 2))
      \<and> TimingAnalysisMean format timings
          = Some (format (sort timings ! (length timings div 2)))
      \<and> sort timings ! (length timings div 2) \<in> set timings
      \<and> sorted (sort timings) \<and> mset (sort timings) = mset timings"
  proof (rule impI, intro conjI)
    assume "timings \<noteq> [] \<and> length timings < 2147483648"
    then have t: "timings \<noteq> []" "length timings < 2147483648"
      by simp_all
    show "mean timings = Some (sort timings ! (length timings div 2))"
      and "TimingAnalysisMean format timings
            = Some (format (sort timings ! (length timings div 2)))"
      and "sort timings ! (length timings div 2) \<in> set timings"
      using t by (rule mean_of_timings)+
    show "sorted (sort timings)" and "mset (sort timings) = mset timings"
      by simp_all
  qed
  show "testId \<notin> set Object_prototype
       \<and> (\<forall>tp \<in> set testProfiles. browserName tp \<notin> set Object_prototype) \<longrightarrow>
      (\<exists>result. profilesByBrowserName testId testProfiles = Value result)"
    using profilesByBrowserName_ordinary [of testId testProfiles] by blast
  show "length testProfiles < 2147483648
       \<and> profilesByBrowserName testId testProfiles = Value profiles \<longrightarrow>
      distinct (map fst profiles)
      \<and> fst ` set profiles = {b. runs_of testId b testProfiles \<noteq> []}
      \<and> (\<forall>p \<in> set profiles.
           length (snd p) = foldr max (map length (runs_of testId (fst p) testProfiles)) 0
           \<and> (\<forall>i < length (snd p).
                \<exists>r. snd p ! i = Some r
                  \<and> actualDurations r
                      = measurements_at actualDuration i (runs_of testId (fst p) testProfiles)
                  \<and> baseDurations r
                      = measurements_at baseDuration i (runs_of testId (fst p) testProfiles)
                  \<and> actualDurations r \<noteq> [] \<and> baseDurations r \<noteq> []
                  \<and> TimingAnalysisMean format (actualDurations r)
                      = Some (format (sort (actualDurations r)
                                ! (length (actualDurations r) div 2)))
                  \<and> TimingAnalysisMean format (baseDurations r)
                      = Some (format (sort (baseDurations r)
                                ! (length (baseDurations r) div 2)))))"
  proof (rule impI, intro conjI ballI allI impI)
    assume a: "length testProfiles < 2147483648
       \<and> profilesByBrowserName testId testProfiles = Value profiles"
    then have n: "length testProfiles < 2147483648"
      and v: "profiles = foldl (squashed testId) [] testProfiles"
      by (simp_all add: profilesByBrowserName_Value)
    show "distinct (map fst profiles)"
      unfolding v by (rule distinct_foldl_squashed) simp
    show "fst ` set profiles = {b. runs_of testId b testProfiles \<noteq> []}"
      unfolding v by (simp add: keys_foldl_squashed)
    fix p
    assume p: "p \<in> set profiles"
    then have q: "p \<in> set (foldl (squashed testId) [] testProfiles)"
      by (simp only: v)
    show "length (snd p) = foldr max (map length (runs_of testId (fst p) testProfiles)) 0"
      using q by (rule collected_squashed_profiles)
    fix i
    assume i: "i < length (snd p)"
    have "measured (length testProfiles) (snd p ! i)"
      using q i by (simp add: measured_squashed_profiles)
    moreover have "collected (runs_of testId (fst p) testProfiles) i (snd p ! i)"
      using q i by (rule collected_squashed_profiles)
    ultimately obtain r where r: "snd p ! i = Some r"
      and a: "actualDurations r \<noteq> []" "length (actualDurations r) \<le> length testProfiles"
      and b: "baseDurations r \<noteq> []" "length (baseDurations r) \<le> length testProfiles"
      and c: "actualDurations r
                = measurements_at actualDuration i (runs_of testId (fst p) testProfiles)"
             "baseDurations r
                = measurements_at baseDuration i (runs_of testId (fst p) testProfiles)"
      by (cases "snd p ! i") (simp_all add: measured_def collected_def)
    have la: "length (actualDurations r) < 2147483648"
      and lb: "length (baseDurations r) < 2147483648"
      using n a(2) b(2) by simp_all
    show "\<exists>r. snd p ! i = Some r
             \<and> actualDurations r
                 = measurements_at actualDuration i (runs_of testId (fst p) testProfiles)
             \<and> baseDurations r
                 = measurements_at baseDuration i (runs_of testId (fst p) testProfiles)
             \<and> actualDurations r \<noteq> [] \<and> baseDurations r \<noteq> []
             \<and> TimingAnalysisMean format (actualDurations r)
                 = Some (format (sort (actualDurations r)
                           ! (length (actualDurations r) div 2)))
             \<and> TimingAnalysisMean format (baseDurations r)
                 = Some (format (sort (baseDurations r)
                           ! (length (baseDurations r) div 2)))"
      using r c a(1) b(1) mean_of_timings(2) [OF a(1) la] mean_of_timings(2) [OF b(1) lb]
      by blast
  qed
qed

lemma profilesByBrowserName_example:
  "profilesByBrowserName ''t'' profiles_example =
     Value
      [(''chrome'',
        [Some \<lparr>render_phase = ''mount'', actualDurations = [3, 1], baseDurations = [2, 1],
                startTimes = [0, 0], commitTimes = [0, 0], render_interactions = []\<rparr>,
         Some \<lparr>render_phase = ''mount'', actualDurations = [1, 2], baseDurations = [1, 2],
                startTimes = [0, 0], commitTimes = [0, 0], render_interactions = []\<rparr>,
         Some \<lparr>render_phase = ''mount'', actualDurations = [7], baseDurations = [6],
                startTimes = [0], commitTimes = [0], render_interactions = []\<rparr>]),
       (''firefox'',
        [Some \<lparr>render_phase = ''mount'', actualDurations = [5], baseDurations = [4],
                startTimes = [0], commitTimes = [0], render_interactions = []\<rparr>])]"
  by code_simp

theorem mean_is_the_median_witness:
  "mean [3, 1, 2, 5 / 2] = Some (5 / 2)
   \<and> (\<exists>profiles. profilesByBrowserName ''t'' profiles_example = Value profiles
        \<and> map fst profiles = [''chrome'', ''firefox'']
        \<and> {b. runs_of ''t'' b profiles_example \<noteq> []} = {''chrome'', ''firefox''}
        \<and> length (snd (profiles ! 0)) = 3
        \<and> (\<exists>r. snd (profiles ! 0) ! 0 = Some r
             \<and> actualDurations r = [3, 1]
             \<and> measurements_at actualDuration 0 (runs_of ''t'' ''chrome'' profiles_example)
                 = [3, 1]
             \<and> TimingAnalysisMean (\<lambda>ms. if ms = 3 then ''3.00'' else ''2.00'')
                 (actualDurations r) = Some ''3.00''
             \<and> TimingAnalysisMean (\<lambda>ms. if ms = 3 then ''3.00'' else ''2.00'')
                 (baseDurations r) = Some ''2.00''))"
proof (intro conjI)
  let ?format = "\<lambda>ms :: rat. if ms = 3 then ''3.00'' else ''2.00''"
  note t = mean_is_the_median [of _ ?format "''t''" profiles_example]
  have s: "sort [3, 1, 2, 5 / 2 :: rat] = [1, 2, 5 / 2, 3]"
    by simp
  have "[3, 1, 2, 5 / 2 :: rat] \<noteq> [] \<and> length [3, 1, 2, 5 / 2 :: rat] < 2147483648"
    by simp
  with t [of "[3, 1, 2, 5 / 2]", THEN conjunct1]
  show "mean [3, 1, 2, 5 / 2] = Some (5 / 2)"
    unfolding s by simp
  let ?r = "\<lparr>render_phase = ''mount'', actualDurations = [3, 1], baseDurations = [2, 1],
             startTimes = [0, 0], commitTimes = [0, 0], render_interactions = []\<rparr>"
  let ?p = "(''chrome'',
       [Some ?r,
        Some \<lparr>render_phase = ''mount'', actualDurations = [1, 2], baseDurations = [1, 2],
               startTimes = [0, 0], commitTimes = [0, 0], render_interactions = []\<rparr>,
        Some \<lparr>render_phase = ''mount'', actualDurations = [7], baseDurations = [6],
               startTimes = [0], commitTimes = [0], render_interactions = []\<rparr>])"
  let ?q = "(''firefox'',
        [Some \<lparr>render_phase = ''mount'', actualDurations = [5], baseDurations = [4],
                startTimes = [0], commitTimes = [0], render_interactions = []\<rparr>])"
  have o: "''t'' \<notin> set Object_prototype
       \<and> (\<forall>tp \<in> set profiles_example. browserName tp \<notin> set Object_prototype)"
    by (simp add: Object_prototype_def profiles_example_def)
  from t [of "[]", THEN conjunct2, THEN conjunct1, rule_format, OF o]
  obtain profiles where v: "profilesByBrowserName ''t'' profiles_example = Value profiles"
    by blast
  then have e: "profiles = [?p, ?q]"
    unfolding profilesByBrowserName_example by simp
  have n: "length profiles_example < 2147483648
       \<and> profilesByBrowserName ''t'' profiles_example = Value profiles"
    using v by (simp add: profiles_example_def)
  note u = t [of "[]" profiles, THEN conjunct2, THEN conjunct2, rule_format, OF n]
  have "fst ` set [?p, ?q] = {''chrome'', ''firefox''}"
    by simp
  with u [THEN conjunct2, THEN conjunct1]
  have k: "{b. runs_of ''t'' b profiles_example \<noteq> []} = {''chrome'', ''firefox''}"
    by (simp only: e)
  have p: "?p \<in> set profiles"
    unfolding e by simp
  note w = u [THEN conjunct2, THEN conjunct2, rule_format, OF p]
  have l: "length (snd (profiles ! 0)) = 3"
    unfolding e by simp
  have x: "0 < length (snd ?p)"
    by simp
  from w [THEN conjunct2, rule_format, OF x]
  obtain r where r: "snd ?p ! 0 = Some r"
    and m: "actualDurations r
              = measurements_at actualDuration 0 (runs_of ''t'' (fst ?p) profiles_example)"
    and ta: "TimingAnalysisMean ?format (actualDurations r)
              = Some (?format (sort (actualDurations r) ! (length (actualDurations r) div 2)))"
    and tb: "TimingAnalysisMean ?format (baseDurations r)
              = Some (?format (sort (baseDurations r) ! (length (baseDurations r) div 2)))"
    by blast
  from r have f: "r = ?r"
    by simp
  have 1: "snd (profiles ! 0) ! 0 = Some r"
    unfolding e f by simp
  have 2: "actualDurations r = [3, 1]"
    unfolding f by simp
  have 3: "measurements_at actualDuration 0 (runs_of ''t'' ''chrome'' profiles_example) = [3, 1]"
    using m unfolding f by simp
  have 4: "TimingAnalysisMean ?format (actualDurations r) = Some ''3.00''"
    using ta unfolding f by simp
  have 5: "TimingAnalysisMean ?format (baseDurations r) = Some ''2.00''"
    using tb unfolding f by simp
  have 6: "map fst profiles = [''chrome'', ''firefox'']"
    unfolding e by simp
  show "\<exists>profiles. profilesByBrowserName ''t'' profiles_example = Value profiles
        \<and> map fst profiles = [''chrome'', ''firefox'']
        \<and> {b. runs_of ''t'' b profiles_example \<noteq> []} = {''chrome'', ''firefox''}
        \<and> length (snd (profiles ! 0)) = 3
        \<and> (\<exists>r. snd (profiles ! 0) ! 0 = Some r
             \<and> actualDurations r = [3, 1]
             \<and> measurements_at actualDuration 0 (runs_of ''t'' ''chrome'' profiles_example)
                 = [3, 1]
             \<and> TimingAnalysisMean (\<lambda>ms. if ms = 3 then ''3.00'' else ''2.00'')
                 (actualDurations r) = Some ''3.00''
             \<and> TimingAnalysisMean (\<lambda>ms. if ms = 3 then ''3.00'' else ''2.00'')
                 (baseDurations r) = Some ''2.00'')"
  proof (intro exI conjI)
    show "profilesByBrowserName ''t'' profiles_example = Value profiles"
      by (rule v)
    show "map fst profiles = [''chrome'', ''firefox'']"
      by (rule 6)
    show "{b. runs_of ''t'' b profiles_example \<noteq> []} = {''chrome'', ''firefox''}"
      by (rule k)
    show "length (snd (profiles ! 0)) = 3"
      by (rule l)
    show "snd (profiles ! 0) ! 0 = Some r"
      by (rule 1)
    show "actualDurations r = [3, 1]"
      by (rule 2)
    show "measurements_at actualDuration 0 (runs_of ''t'' ''chrome'' profiles_example) = [3, 1]"
      by (rule 3)
    show "TimingAnalysisMean ?format (actualDurations r) = Some ''3.00''"
      by (rule 4)
    show "TimingAnalysisMean ?format (baseDurations r) = Some ''2.00''"
      by (rule 5)
  qed
qed

section \<open>Failed downloads\<close>


text \<open>
  The page of the route that reads from Azure computes the entries of the two snapshots
  that its loader hands over, and no entry from the data of a response that holds no
  snapshot.
\<close>

lemma Comparison_results_of_snapshots:
  "Comparison_results (Some base) (Some target) = Value (compute_main_pages_js base target)"
proof -
  have "foldl
     (\<lambda>acc bundle. case acc of
        Value d \<Rightarrow>
          (case Some target of
             None \<Rightarrow> TypeError
           | Some target \<Rightarrow>
               (case Some base of
                  None \<Rightarrow> TypeError
                | Some base \<Rightarrow> Value (push_entry_js base target d bundle)))
      | TypeError \<Rightarrow> TypeError
      | Unfollowed \<Rightarrow> Unfollowed) (Value d) ks
     = Value (foldl (push_entry_js base target) d ks)" for d ks
    by (induction ks arbitrary: d) simp_all
  then show ?thesis
    by (simp add: Comparison_results_def compute_main_pages_js_def bundleKeys_def
        spread_source_def)
qed

lemma SizeComparison_azure_of_snapshots:
  "SizeComparison_azure (Snapshots base target prNumber)
     = Value (compute_main_pages_js base target)"
  by (simp add: SizeComparison_azure_def baseSnapshot_of_def targetSnapshot_of_def
      Comparison_results_of_snapshots)





end
